theory Spec2Isabelle
  imports Complex_Main
begin

section \<open>Values, dictionaries and series\<close>

text \<open>
  Attribute values of the segmentation are the scalars a settings file holds (integers
  such as a demographic segment, strings such as \<open>AM\<close> or \<open>walk\<close>); tap ids are integers.
\<close>

datatype attr_value = IntV int | StrV string

datatype error = AssertionError | KeyError | AttributeError | TypeError | ValueError
  | InvalidIndexError | RuntimeError

text \<open>
  A Python \<open>dict\<close> keeps insertion order: it is an association list, and an assignment
  \<open>d[k] = v\<close> to a key already present replaces the value at the key's position.
\<close>

fun dict_set :: "('k \<times> 'v) list \<Rightarrow> 'k \<Rightarrow> 'v \<Rightarrow> ('k \<times> 'v) list" where
  "dict_set [] k v = [(k, v)]"
| "dict_set ((k', v') # d) k v =
     (if k' = k then (k', v) # d else (k', v') # dict_set d k v)"

text \<open>A dict comprehension \<open>{k: v for k, v in pairs}\<close> assigns the pairs in order.\<close>

definition dict_comprehension :: "('k \<times> 'v) list \<Rightarrow> ('k \<times> 'v) list" where
  "dict_comprehension kvs = foldl (\<lambda>d (k, v). dict_set d k v) [] kvs"

text \<open>
  \<open>itertools.product(*pools)\<close>: the tuples of the Cartesian product in odometer order,
  the last pool cycling fastest.
\<close>

fun itertools_product :: "'a list list \<Rightarrow> 'a list list" where
  "itertools_product [] = [[]]"
| "itertools_product (pool # pools) =
     concat (map (\<lambda>x. map ((#) x) (itertools_product pools)) pool)"

text \<open>
  A \<open>pandas.Series\<close> of integers is the list of its (index label, value) pairs.
  \<open>pd.Series(range(len(v)), index=v)\<close> numbers the labels \<open>v\<close> from zero.
\<close>

type_synonym series = "(attr_value \<times> int) list"

definition Series_range :: "attr_value list \<Rightarrow> series" where
  "Series_range v = zip v (map int [0..<length v])"

text \<open>
  The numbers of the uid arithmetic. numpy and pandas hold the ordinals and the uids as
  64-bit signed integers (the default integer of numpy wherever a C long has 64 bits),
  whose sums and products wrap around silently: \<open>I64 x\<close> is
  such an integer, with \<open>x\<close> between \<open>- 2^63\<close> and \<open>2^63 - 1\<close>. As soon as a NaN
  enters (the maximum of an empty series, a value that a mapping does not find) the
  operands are converted to 64-bit floats: \<open>F64\<close> is a float, NaN where it stems from a
  NaN operand, whose value this model does not determine.
\<close>

definition wrap64 :: "int \<Rightarrow> int" where
  "wrap64 x = (x + 2 ^ 63) mod 2 ^ 64 - 2 ^ 63"

datatype number = I64 int | F64

definition num_mul :: "number \<Rightarrow> number \<Rightarrow> number" where
  "num_mul a b = (case a of F64 \<Rightarrow> F64
     | I64 x \<Rightarrow> (case b of F64 \<Rightarrow> F64 | I64 y \<Rightarrow> I64 (wrap64 (x * y))))"

definition num_add :: "number \<Rightarrow> number \<Rightarrow> number" where
  "num_add a b = (case a of F64 \<Rightarrow> F64
     | I64 x \<Rightarrow> (case b of F64 \<Rightarrow> F64 | I64 y \<Rightarrow> I64 (wrap64 (x + y))))"

text \<open>
  An array has one type for all its elements: when one of them is a float, all are.
  The product of an array with a scalar, the sum of two arrays of one length and the
  sum of an array with a scalar are taken element by element.
\<close>

definition as_dtype :: "number list \<Rightarrow> number list" where
  "as_dtype xs = (if F64 \<in> set xs then map (\<lambda>x. F64) xs else xs)"

definition array_mul :: "number list \<Rightarrow> number \<Rightarrow> number list" where
  "array_mul xs c = map (\<lambda>x. num_mul x c) xs"

definition array_add :: "number list \<Rightarrow> number list \<Rightarrow> number list" where
  "array_add xs ys = as_dtype (map2 num_add xs ys)"

definition array_add_scalar :: "number list \<Rightarrow> number \<Rightarrow> number list" where
  "array_add_scalar xs y = map (\<lambda>x. num_add x y) xs"

text \<open>\<open>Series.max()\<close>: the largest value, NaN for an empty series.\<close>

definition series_max :: "series \<Rightarrow> number" where
  "series_max s = (case map snd s of [] \<Rightarrow> F64 | x # xs \<Rightarrow> I64 (fold max xs x))"

text \<open>
  \<open>Series.at[key]\<close>: a missing label raises \<open>KeyError\<close>; a label that occurs once gives
  its value; for a label that occurs several times pandas hands back the sub-series of
  its values.
\<close>

datatype at_value = Scalar int | Sub_series "int list"

definition series_at :: "series \<Rightarrow> attr_value \<Rightarrow> error + at_value" where
  "series_at s key =
     (case filter (\<lambda>kv. fst kv = key) s of
        [] \<Rightarrow> Inl KeyError
      | [kv] \<Rightarrow> Inr (Scalar (snd kv))
      | kvs \<Rightarrow> Inr (Sub_series (map snd kvs)))"

text \<open>
  \<open>column.map(ordinalizer)\<close> with a series as mapper looks every element of the column
  up in the mapper's index: a missing label gives NaN, which makes the result an array
  of floats, and a mapper whose index has a repeated label is refused with
  \<open>InvalidIndexError\<close>.
\<close>

definition series_map :: "attr_value list \<Rightarrow> series \<Rightarrow> error + number list" where
  "series_map col s =
     (if distinct (map fst s)
      then Inr (as_dtype (map (\<lambda>x. case map_of s x of None \<Rightarrow> F64 | Some v \<Rightarrow> I64 v) col))
      else Inl InvalidIndexError)"

text \<open>
  What a computation of the calculator comes to: it returns a value, it raises, or it
  goes on with a sub-series that \<open>Series.at\<close> handed back. The arithmetic of pandas on
  such an operand (broadcasting against the array, alignment of two indexes with
  repeated labels) is outside this model, which says nothing about how the computation
  ends then.
\<close>

datatype 'a outcome = Returns 'a | Raises error | Not_modelled

section \<open>TapTapUidCalculator\<close>

text \<open>
  The calculator reads three things from \<open>network_los\<close>, which are the parameters of the
  constructor here: the \<open>TAP\<close> column of the tap table, the \<open>attribute_segments\<close> setting
  (an ordered dict from attribute name to the list of its values) and the columns of
  the model specification.
\<close>

record uid_calculator =
  tap_ids :: "int list"
  segmentation :: "(string \<times> attr_value list) list"
  attribute_combination_tuples :: "attr_value list list"
  ordinalizers :: "(string \<times> series) list"
  set_names :: "string list"

definition TapTapUidCalculator_init ::
  "int list \<Rightarrow> (string \<times> attr_value list) list \<Rightarrow> string list \<Rightarrow> uid_calculator" where
  "TapTapUidCalculator_init taps seg names =
     (let segment_ordinalizers = foldl (\<lambda>d (k, v). dict_set d k (Series_range v)) [] seg;
          btap_ordinalizer = Series_range (map IntV taps);
          with_btap = dict_set segment_ordinalizers ''btap'' btap_ordinalizer;
          with_atap = dict_set with_btap ''atap'' btap_ordinalizer
      in \<lparr> tap_ids = taps,
           segmentation = seg,
           attribute_combination_tuples = itertools_product (map snd seg),
           ordinalizers = with_atap,
           set_names = names \<rparr>)"

definition fully_populated_shape :: "uid_calculator \<Rightarrow> nat \<times> nat" where
  "fully_populated_shape c =
     (let num_combinations = length (attribute_combination_tuples c);
          num_orig_zones = length (tap_ids c);
          num_dest_zones = length (tap_ids c);
          num_rows = num_combinations * num_orig_zones * num_dest_zones;
          num_sets = length (set_names c)
      in (num_rows, num_sets))"

text \<open>
  \<open>np.arange\<close> of the number of rows: the integers from zero, which an array that the
  memory can hold keeps exactly.
\<close>

definition fully_populated_uids :: "uid_calculator \<Rightarrow> int list" where
  "fully_populated_uids c =
     (let num_combinations = length (attribute_combination_tuples c);
          num_orig_zones = length (tap_ids c);
          num_dest_zones = length (tap_ids c)
      in map int [0..<num_combinations * num_orig_zones * num_dest_zones])"

text \<open>
  A data frame, as far as the uid computation reads it: its number of rows and its
  columns by name, every column as long as the frame.
\<close>

record dataframe =
  df_len :: nat
  df_columns :: "(string \<times> attr_value list) list"

text \<open>
  The loop of \<open>get_unique_ids\<close> over the ordinalizers, in the dict's order. The uids are
  an array with one element for each row of the frame, 64-bit integers from the start.
\<close>

fun get_unique_ids_loop ::
  "(string \<times> series) list \<Rightarrow> dataframe \<Rightarrow> (string \<times> attr_value) list
     \<Rightarrow> number list \<Rightarrow> number list outcome" where
  "get_unique_ids_loop [] frame scalar_attributes uid = Returns uid"
| "get_unique_ids_loop ((name, ordinalizer) # rest) frame scalar_attributes uid =
     (let cardinality = num_add (series_max ordinalizer) (I64 1) in
      case map_of (df_columns frame) name of
        Some col \<Rightarrow>
          (case series_map col ordinalizer of
             Inl e \<Rightarrow> Raises e
           | Inr ordinals \<Rightarrow>
               get_unique_ids_loop rest frame scalar_attributes
                 (array_add (array_mul uid cardinality) ordinals))
      | None \<Rightarrow>
          (case map_of scalar_attributes name of
             None \<Rightarrow> Raises AssertionError
           | Some v \<Rightarrow>
               (case series_at ordinalizer v of
                  Inl e \<Rightarrow> Raises e
                | Inr (Scalar ordinal) \<Rightarrow>
                    get_unique_ids_loop rest frame scalar_attributes
                      (array_add_scalar (array_mul uid cardinality) (I64 ordinal))
                | Inr (Sub_series ordinals) \<Rightarrow> Not_modelled)))"

definition get_unique_ids ::
  "uid_calculator \<Rightarrow> dataframe \<Rightarrow> (string \<times> attr_value) list \<Rightarrow> number list outcome" where
  "get_unique_ids c frame scalar_attributes =
     get_unique_ids_loop (ordinalizers c) frame scalar_attributes
       (replicate (df_len frame) (I64 0))"

text \<open>
  \<open>get_skim_offset\<close>: the same composition on one number, over the attributes that
  \<open>scalar_attributes\<close> names, the others skipped.
\<close>

fun get_skim_offset_loop ::
  "(string \<times> series) list \<Rightarrow> (string \<times> attr_value) list \<Rightarrow> number
     \<Rightarrow> number outcome" where
  "get_skim_offset_loop [] scalar_attributes offset = Returns offset"
| "get_skim_offset_loop ((name, ordinalizer) # rest) scalar_attributes offset =
     (let cardinality = num_add (series_max ordinalizer) (I64 1) in
      case map_of scalar_attributes name of
        None \<Rightarrow> get_skim_offset_loop rest scalar_attributes offset
      | Some v \<Rightarrow>
          (case series_at ordinalizer v of
             Inl e \<Rightarrow> Raises e
           | Inr (Scalar ordinal) \<Rightarrow>
               get_skim_offset_loop rest scalar_attributes
                 (num_add (num_mul offset cardinality) (I64 ordinal))
           | Inr (Sub_series ordinals) \<Rightarrow> Not_modelled))"

definition get_skim_offset ::
  "uid_calculator \<Rightarrow> (string \<times> attr_value) list \<Rightarrow> number outcome" where
  "get_skim_offset c scalar_attributes =
     get_skim_offset_loop (ordinalizers c) scalar_attributes (I64 0)"

text \<open>
  \<open>each_scalar_attribute_combination\<close> is a generator method: a call runs none of its
  body and returns a new generator object. The first \<open>next\<close> on the object reads the
  attribute names and starts to iterate over the list of tuples of the calculator;
  every \<open>next\<close> yields the dict of one tuple and suspends, or finds the list at its end
  and finishes (\<open>StopIteration\<close>, \<open>None\<close> here). A suspended generator owns its names
  and the tuples it has not reached yet.

  A session holds the calculator object and the generator objects created from it, a
  generator being known by its position. A position that no call has returned refers
  to no object and yields nothing.
\<close>

datatype generator = Created | Suspended "string list" "attr_value list list" | Finished

record session =
  calculator :: uid_calculator
  generators :: "generator list"

definition each_scalar_attribute_combination :: "session \<Rightarrow> nat \<times> session" where
  "each_scalar_attribute_combination s =
     (length (generators s), s\<lparr> generators := generators s @ [Created] \<rparr>)"

definition generator_loop ::
  "nat \<Rightarrow> session \<Rightarrow> string list \<Rightarrow> attr_value list list
     \<Rightarrow> (string \<times> attr_value) list option \<times> session" where
  "generator_loop g s attribute_names remaining =
     (case remaining of
        [] \<Rightarrow> (None, s\<lparr> generators := (generators s)[g := Finished] \<rparr>)
      | attribute_value_tuple # rest \<Rightarrow>
          (Some (dict_comprehension (zip attribute_names attribute_value_tuple)),
           s\<lparr> generators := (generators s)[g := Suspended attribute_names rest] \<rparr>))"

definition generator_next ::
  "nat \<Rightarrow> session \<Rightarrow> (string \<times> attr_value) list option \<times> session" where
  "generator_next g s =
     (if g < length (generators s) then
        (case generators s ! g of
           Created \<Rightarrow>
             generator_loop g s (map fst (segmentation (calculator s)))
               (attribute_combination_tuples (calculator s))
         | Suspended attribute_names remaining \<Rightarrow> generator_loop g s attribute_names remaining
         | Finished \<Rightarrow> (None, s))
      else (None, s))"

text \<open>
  Iterating a generator to its end, as a \<open>for\<close> loop or \<open>list(...)\<close> does: the yields
  in order, and the session left behind. The number of steps a generator still has
  bounds the iteration.
\<close>

definition steps_left :: "nat \<Rightarrow> session \<Rightarrow> nat" where
  "steps_left g s =
     (if g < length (generators s) then
        (case generators s ! g of
           Created \<Rightarrow> length (attribute_combination_tuples (calculator s)) + 2
         | Suspended attribute_names remaining \<Rightarrow> length remaining + 1
         | Finished \<Rightarrow> 0)
      else 0)"

function exhaust :: "nat \<Rightarrow> session \<Rightarrow> (string \<times> attr_value) list list \<times> session" where
  "exhaust g s =
     (case generator_next g s of
        (None, s') \<Rightarrow> ([], s')
      | (Some scalar_attributes, s') \<Rightarrow>
          (case exhaust g s' of (yields, s'') \<Rightarrow> (scalar_attributes # yields, s'')))"
  by pat_completeness auto
termination
  by (relation "measure (\<lambda>(g, s). steps_left g s)")
     (auto simp: steps_left_def generator_next_def generator_loop_def
           split: if_splits generator.splits list.splits)

declare exhaust.simps [simp del]

text \<open>A one-row frame with the two tap columns, as a row of the tap-to-tap frame has them.\<close>

definition od_row :: "int \<Rightarrow> int \<Rightarrow> dataframe" where
  "od_row btap atap =
     \<lparr> df_len = 1, df_columns = [(''btap'', [IntV btap]), (''atap'', [IntV atap])] \<rparr>"

section \<open>TVPBCache\<close>

text \<open>
  A cell of the cache holds a float32: NaN marks a value not yet computed. The table
  \<open>_df\<close> is a frame indexed by uid: the list of its rows, each with its uid label.
\<close>

datatype cell = NaN | Num real

type_synonym table = "(int \<times> cell list) list"

datatype cache_type = DYNAMIC | STATIC | TRACE

text \<open>What the cache asks of \<open>network_los\<close>: the cache directory and three settings.\<close>

record network_los =
  cache_dir :: string
  rebuild_tvpb_cache :: bool
  multiprocess :: bool
  trace_tvpb_cache_as_csv :: bool

record tvpb_cache =
  cache_tag :: string
  is_open :: bool
  is_changed :: bool
  df :: "table option"

text \<open>
  The world outside the object: the three files of this cache (the file at
  \<open>cache_path(STATIC)\<close>, at \<open>cache_path(DYNAMIC)\<close> and at \<open>cache_path(TRACE)\<close>, absent when
  \<open>None\<close>), the injectable \<open>data_buffers\<close>, and a log of every file-system and buffer
  access, in the order the code makes them.
\<close>

datatype io_event = IsFile string | ReadMmap string | ReadFeather string | GetDataBuffers
  | WriteMmap string | WriteFeather string | WriteCsv string

record world =
  static_file :: "cell list option"
  dynamic_file :: "table option"
  trace_file :: "table option"
  data_buffers :: "(string \<times> cell list) list option"
  io_log :: "io_event list"

datatype buffer = NumpyArray "cell list" | RawArray "cell list" | SynchronizedArray "cell list"

definition RAWARRAY :: bool where
  "RAWARRAY = False"

definition DTYPE_NAME :: string where
  "DTYPE_NAME = ''float32''"

definition TVPBCache_init :: "string \<Rightarrow> tvpb_cache" where
  "TVPBCache_init tag = \<lparr> cache_tag = tag, is_open = False, is_changed = False, df = None \<rparr>"

text \<open>\<open>os.path.join\<close> of two components, on a POSIX system.\<close>

definition os_path_join :: "string \<Rightarrow> string \<Rightarrow> string" where
  "os_path_join a b =
     (if b \<noteq> [] \<and> hd b = CHR ''/'' then b
      else if a = [] \<or> last a = CHR ''/'' then a @ b
      else a @ ''/'' @ b)"

text \<open>
  The source takes the cache type as a string and asserts that it is one of the three
  constants; the class passes nothing else, so the type has these three values.
\<close>

fun file_type :: "cache_type \<Rightarrow> string" where
  "file_type DYNAMIC = ''feather''"
| "file_type STATIC = ''mmap''"
| "file_type TRACE = ''csv''"

definition cache_path :: "network_los \<Rightarrow> tvpb_cache \<Rightarrow> cache_type \<Rightarrow> string" where
  "cache_path los c t = os_path_join (cache_dir los) (cache_tag c @ ''.'' @ file_type t)"

definition is_fully_populated :: "uid_calculator \<Rightarrow> tvpb_cache \<Rightarrow> error + bool" where
  "is_fully_populated calc c =
     (if \<not> is_open c then Inl AssertionError
      else Inr (case df c of
                  None \<Rightarrow> False
                | Some t \<Rightarrow> length t = fst (fully_populated_shape calc)))"

text \<open>
  \<open>get_data_and_lock_from_buffers\<close>: the buffer published under the cache tag. The
  membership test on a missing injectable (\<open>None\<close>) is a \<open>TypeError\<close>.
\<close>

definition get_data_and_lock_from_buffers ::
  "tvpb_cache \<Rightarrow> world \<Rightarrow> (error + cell list) \<times> world" where
  "get_data_and_lock_from_buffers c w =
     (let w1 = w\<lparr> io_log := io_log w @ [GetDataBuffers] \<rparr> in
      case data_buffers w of
        None \<Rightarrow> (Inl TypeError, w1)
      | Some buffers \<Rightarrow>
          (case map_of buffers (cache_tag c) of
             None \<Rightarrow> (Inl AssertionError, w1)
           | Some data \<Rightarrow> (Inr data, w1)))"

text \<open>\<open>data.reshape((-1, k))\<close>: rows of \<open>k\<close> cells, refused when the size does not divide.\<close>

function chunks :: "nat \<Rightarrow> 'a list \<Rightarrow> 'a list list" where
  "chunks k xs = (if k = 0 \<or> xs = [] then [] else take k xs # chunks k (drop k xs))"
  by pat_completeness auto
termination
  by (relation "measure (\<lambda>(k, xs). length xs)") auto

definition reshape_rows :: "cell list \<Rightarrow> nat \<Rightarrow> error + cell list list" where
  "reshape_rows data k =
     (if k = 0 \<or> length data mod k \<noteq> 0 then Inl ValueError else Inr (chunks k data))"

text \<open>
  The last part of \<open>open\<close>: a flat array from the shared buffer or the memory-mapped
  file becomes the table, labelled with the fully populated uids in order.
\<close>

definition wrap_static_data ::
  "uid_calculator \<Rightarrow> tvpb_cache \<Rightarrow> cell list \<Rightarrow> (error + unit) \<times> tvpb_cache" where
  "wrap_static_data calc c data =
     (let column_names = set_names calc in
      case reshape_rows data (length column_names) of
        Inl e \<Rightarrow> (Inl e, c)
      | Inr rows \<Rightarrow>
          (let uids = fully_populated_uids calc in
           if length rows \<noteq> length uids then (Inl AssertionError, c)
           else (Inr (), c\<lparr> df := Some (zip uids rows) \<rparr>)))"

definition open_cache ::
  "network_los \<Rightarrow> uid_calculator \<Rightarrow> bool \<Rightarrow> tvpb_cache \<times> world
     \<Rightarrow> (error + unit) \<times> tvpb_cache \<times> world" where
  "open_cache los calc for_rebuild cw =
     (let c = fst cw; w = snd cw in
      if is_open c then (Inl AssertionError, c, w)
      else
        let c1 = c\<lparr> is_open := True \<rparr> in
        if for_rebuild then (Inr (), c1, w)
        else if multiprocess los then
          (case get_data_and_lock_from_buffers c1 w of
             (Inl e, w1) \<Rightarrow> (Inl e, c1, w1)
           | (Inr data, w1) \<Rightarrow>
               (case wrap_static_data calc c1 data of (r, c2) \<Rightarrow> (r, c2, w1)))
        else
          let w1 = w\<lparr> io_log := io_log w @ [IsFile (cache_path los c1 STATIC)] \<rparr> in
          case static_file w1 of
            Some data \<Rightarrow>
              (let w2 = w1\<lparr> io_log := io_log w1 @ [ReadMmap (cache_path los c1 STATIC)] \<rparr> in
               if data = [] then (Inl ValueError, c1, w2)
               else case wrap_static_data calc c1 data of (r, c2) \<Rightarrow> (r, c2, w2))
          | None \<Rightarrow>
              (let w2 = w1\<lparr> io_log := io_log w1 @ [IsFile (cache_path los c1 DYNAMIC)] \<rparr> in
               case dynamic_file w2 of
                 Some t \<Rightarrow>
                   (let w3 = w2\<lparr> io_log := io_log w2 @ [ReadFeather (cache_path los c1 DYNAMIC)] \<rparr> in
                    if \<not> distinct (map fst t) then (Inl AssertionError, c1, w3)
                    else (Inr (), c1\<lparr> df := Some t \<rparr>, w3))
               | None \<Rightarrow> (Inr (), c1, w2)))"

text \<open>
  \<open>flush\<close>. The first assertion reads \<open>self._df.index\<close>, an \<open>AttributeError\<close> when the
  store holds no table. In the fully populated branch the source asserts \<open>False\<close> before
  the code that would write the memory-mapped file, so that code is never reached.
\<close>

definition flush ::
  "network_los \<Rightarrow> uid_calculator \<Rightarrow> tvpb_cache \<times> world
     \<Rightarrow> (error + unit) \<times> tvpb_cache \<times> world" where
  "flush los calc cw =
     (let c = fst cw; w = snd cw in
      if \<not> is_open c then (Inl AssertionError, c, w)
      else case df c of
        None \<Rightarrow> (Inl AttributeError, c, w)
      | Some t \<Rightarrow>
          if \<not> distinct (map fst t) then (Inl AssertionError, c, w)
          else if is_changed c then
            (case is_fully_populated calc c of
               Inl e \<Rightarrow> (Inl e, c, w)
             | Inr True \<Rightarrow> (Inl AssertionError, c, w)
             | Inr False \<Rightarrow>
                 (let (c1, w1) =
                        (if rebuild_tvpb_cache los
                         then (c\<lparr> is_changed := False \<rparr>,
                               w\<lparr> dynamic_file := Some t,
                                  io_log := io_log w @ [WriteFeather (cache_path los c DYNAMIC)] \<rparr>)
                         else (c, w));
                      w2 = (if trace_tvpb_cache_as_csv los
                            then w1\<lparr> trace_file := Some t,
                                     io_log := io_log w1 @ [WriteCsv (cache_path los c TRACE)] \<rparr>
                            else w1)
                  in (Inr (), c1, w2)))
          else (Inr (), c, w))"

definition close ::
  "network_los \<Rightarrow> uid_calculator \<Rightarrow> tvpb_cache \<times> world
     \<Rightarrow> (error + unit) \<times> tvpb_cache \<times> world" where
  "close los calc cw =
     (if \<not> is_open (fst cw) then (Inl AssertionError, cw)
      else case flush los calc cw of
        (Inl e, c1, w1) \<Rightarrow> (Inl e, c1, w1)
      | (Inr u, c1, w1) \<Rightarrow> (Inr (), c1\<lparr> is_open := False, df := None \<rparr>, w1))"

text \<open>The rows of the table of a store; a store without a table has none.\<close>

definition table_rows :: "tvpb_cache \<Rightarrow> table" where
  "table_rows c = (case df c of None \<Rightarrow> [] | Some t \<Rightarrow> t)"

text \<open>
  \<open>extend_table\<close>. The three assertions come first; then the dirty flag is set and the
  rows are appended, and only then is the index checked for duplicates, so the state
  that an error leaves behind is part of the result.
\<close>

definition extend_table ::
  "uid_calculator \<Rightarrow> tvpb_cache \<Rightarrow> table \<Rightarrow> (error + unit) \<times> tvpb_cache" where
  "extend_table calc c new_rows =
     (if \<not> length new_rows > 0 then (Inl AssertionError, c)
      else if \<not> is_open c then (Inl AssertionError, c)
      else case is_fully_populated calc c of
        Inl e \<Rightarrow> (Inl e, c)
      | Inr True \<Rightarrow> (Inl AssertionError, c)
      | Inr False \<Rightarrow>
          (let c1 = c\<lparr> is_changed := True \<rparr>;
               c2 = (case df c1 of
                       None \<Rightarrow> c1\<lparr> df := Some new_rows \<rparr>
                     | Some t \<Rightarrow> c1\<lparr> df := Some (t @ new_rows) \<rparr>)
           in if \<not> distinct (map fst (table_rows c2))
              then (Inl AssertionError, c2)
              else (Inr (), c2)))"

text \<open>
  Modelled from the spec: \<open>util.iprod\<close>, which lives in another module of the
  repository; the buffer has \<open>rows \<times> cols\<close> elements of the fully populated shape.
\<close>

definition iprod :: "nat \<times> nat \<Rightarrow> nat" where
  "iprod shape = fst shape * snd shape"

text \<open>
  \<open>allocate_data_buffer\<close>. A private buffer is a numpy array that the code fills with
  NaN. A shared buffer is a \<open>multiprocessing.Array\<close> (or \<open>RawArray\<close>) created from a
  size alone, which the library zeroes; the code returns it as it is.
\<close>

definition allocate_data_buffer ::
  "uid_calculator \<Rightarrow> tvpb_cache \<Rightarrow> bool \<Rightarrow> error + buffer" where
  "allocate_data_buffer calc c shared =
     (if is_open c then Inl AssertionError
      else
        let buffer_size = iprod (fully_populated_shape calc) in
        if shared then
          (if DTYPE_NAME = ''float64'' \<or> DTYPE_NAME = ''float32'' then
             (if RAWARRAY then Inr (RawArray (replicate buffer_size (Num 0)))
              else Inr (SynchronizedArray (replicate buffer_size (Num 0))))
           else Inl RuntimeError)
        else Inr (NumpyArray (replicate buffer_size NaN)))"

section \<open>The key space of the calculator\<close>

text \<open>
  The position of a value in a list of values, and the number that a tuple of values
  spells in the mixed radix of its pools: the notions in which the results on the uid
  computation are stated.
\<close>

fun ordinal_of :: "'a list \<Rightarrow> 'a \<Rightarrow> nat" where
  "ordinal_of [] x = 0"
| "ordinal_of (y # ys) x = (if x = y then 0 else Suc (ordinal_of ys x))"

fun mixed_radix :: "'a list list \<Rightarrow> 'a list \<Rightarrow> nat" where
  "mixed_radix (pool # pools) (x # xs) =
     ordinal_of pool x * prod_list (map length pools) + mixed_radix pools xs"
| "mixed_radix _ _ = 0"

text \<open>
  The configurations for which the uid computation is a numbering of the key space.
  The segmentation is well formed when its attribute names are those of a dict and none
  of them is one of the two tap column names, which the calculator adds to the same
  dict, and no attribute lists a value twice; the configuration is well formed when,
  moreover, no tap id occurs twice.
\<close>

definition well_formed_segmentation :: "(string \<times> attr_value list) list \<Rightarrow> bool" where
  "well_formed_segmentation seg =
     (distinct (map fst seg) \<and> list_all (\<lambda>kp. distinct (snd kp)) seg
      \<and> ''btap'' \<notin> set (map fst seg) \<and> ''atap'' \<notin> set (map fst seg))"

definition well_formed :: "int list \<Rightarrow> (string \<times> attr_value list) list \<Rightarrow> bool" where
  "well_formed taps seg = (well_formed_segmentation seg \<and> distinct taps)"

text \<open>
  The full Cartesian product of the attribute values and the origin and destination
  taps, and the uid that \<open>get_unique_ids\<close> computes for one of its elements: the tuple
  gives the scalar attributes, as \<open>each_scalar_attribute_combination\<close> builds them, and
  the taps the row of the frame.
\<close>

definition all_combinations :: "uid_calculator \<Rightarrow> (attr_value list \<times> int \<times> int) list" where
  "all_combinations c =
     concat (map (\<lambda>t. concat (map (\<lambda>b. map (\<lambda>a. (t, b, a)) (tap_ids c)) (tap_ids c)))
               (attribute_combination_tuples c))"

definition uid_of_combination ::
  "uid_calculator \<Rightarrow> attr_value list \<times> int \<times> int \<Rightarrow> number list outcome" where
  "uid_of_combination c x =
     (case x of (t, b, a) \<Rightarrow>
        get_unique_ids c (od_row b a)
          (dict_comprehension (zip (map fst (segmentation c)) t)))"

text \<open>A segmentation whose only attribute is named like the origin tap column.\<close>

definition colliding_calculator :: uid_calculator where
  "colliding_calculator =
     TapTapUidCalculator_init [10, 20] [(''btap'', [StrV ''x'', StrV ''y''])] [''s'']"

text \<open>
  A configuration with \<open>2^21\<close> values of one attribute and \<open>2^21 + 1\<close> taps: its
  \<open>2^63 + 2^43 + 2^21\<close> rows are more than a 64-bit integer counts.
\<close>

definition overflowing_calculator :: uid_calculator where
  "overflowing_calculator =
     TapTapUidCalculator_init (map int [0..<2097153])
       [(''segment'', map IntV (map int [0..<2097152]))] [''s'']"

section \<open>Example configurations\<close>

text \<open>The scenario with one attribute \<open>tod\<close> of two values and the two taps 10 and 20.\<close>

definition scenario_calculator :: "string list \<Rightarrow> uid_calculator" where
  "scenario_calculator names =
     TapTapUidCalculator_init [10, 20] [(''tod'', [StrV ''AM'', StrV ''MD''])] names"

definition example_los :: "bool \<Rightarrow> bool \<Rightarrow> network_los" where
  "example_los rebuild trace =
     \<lparr> cache_dir = ''cache'', rebuild_tvpb_cache = rebuild, multiprocess = False,
       trace_tvpb_cache_as_csv = trace \<rparr>"

definition example_store :: "bool \<Rightarrow> bool \<Rightarrow> table option \<Rightarrow> tvpb_cache" where
  "example_store opened changed t =
     \<lparr> cache_tag = ''tap_tap'', is_open = opened, is_changed = changed, df = t \<rparr>"

definition empty_world :: world where
  "empty_world =
     \<lparr> static_file = None, dynamic_file = None, trace_file = None, data_buffers = None,
       io_log = [] \<rparr>"

definition stocked_world :: world where
  "stocked_world =
     \<lparr> static_file = Some (replicate 8 (Num 1)),
       dynamic_file = Some [(0, [Num 1])],
       trace_file = None,
       data_buffers = Some [(''tap_tap'', replicate 8 (Num 1))],
       io_log = [] \<rparr>"

definition full_table :: table where
  "full_table =
     [(0, [Num 1]), (1, [Num 1]), (2, [Num 1]), (3, [Num 1]),
      (4, [Num 1]), (5, [Num 1]), (6, [Num 1]), (7, [Num 1])]"

definition partial_table :: table where
  "partial_table = [(5, [Num 1]), (2, [Num 1])]"

section \<open>The scenario of the specification\<close>

lemma scenario_rows: "fully_populated_shape (scenario_calculator names) = (8, length names)"
  by (simp add: scenario_calculator_def fully_populated_shape_def
      TapTapUidCalculator_init_def Let_def)

section \<open>Dictionaries, products, series and 64-bit arithmetic\<close>

lemma dict_set_fresh: "k \<notin> set (map fst d) \<Longrightarrow> dict_set d k v = d @ [(k, v)]"
  by (induction d) auto

lemma foldl_dict_set_fresh:
  "distinct (map fst acc @ map fst kvs) \<Longrightarrow>
   foldl (\<lambda>d (k, v). dict_set d k (f v)) acc kvs = acc @ map (\<lambda>(k, v). (k, f v)) kvs"
proof (induction kvs arbitrary: acc)
  case Nil
  then show ?case by simp
next
  case (Cons kv kvs)
  obtain k v where kv: "kv = (k, v)" by (cases kv)
  from Cons.prems have fresh: "k \<notin> set (map fst acc)" by (auto simp: kv)
  from Cons.prems have "distinct (map fst (acc @ [(k, f v)]) @ map fst kvs)"
    by (auto simp: kv)
  from Cons.IH [OF this] show ?case
    by (simp add: kv dict_set_fresh [OF fresh])
qed

lemma dict_comprehension_distinct:
  "distinct (map fst kvs) \<Longrightarrow> dict_comprehension kvs = kvs"
  using foldl_dict_set_fresh [of "[]" kvs "\<lambda>v. v"]
  by (simp add: dict_comprehension_def case_prod_unfold)

lemma map_ordinal_of: "distinct p \<Longrightarrow> map (ordinal_of p) p = [0..<length p]"
proof (induction p)
  case Nil
  then show ?case by simp
next
  case (Cons y ys)
  from Cons.prems have "map (ordinal_of (y # ys)) ys = map (\<lambda>x. Suc (ordinal_of ys x)) ys"
    by (intro map_cong) auto
  also have "\<dots> = map Suc (map (ordinal_of ys) ys)"
    by simp
  also have "\<dots> = [Suc 0..<Suc (length ys)]"
    using Cons by (simp add: map_Suc_upt)
  finally have tail: "map (ordinal_of (y # ys)) ys = [Suc 0..<Suc (length ys)]" .
  have head: "ordinal_of (y # ys) y = 0"
    by simp
  show ?case
    unfolding list.map head tail by (simp add: upt_conv_Cons del: upt_Suc)
qed

lemma concat_blocks:
  "concat (map (\<lambda>i. map (\<lambda>j. i * m + j) [0..<m]) [0..<n]) = [0..<n * m]"
proof (induction n)
  case 0
  then show ?case by simp
next
  case (Suc n)
  have block: "map (\<lambda>j. n * m + j) [0..<m] = [n * m..<n * m + m]"
    by (simp add: map_add_upt add.commute)
  have split: "[0..<n * m + m] = [0..<n * m] @ [n * m..<n * m + m]"
    by (rule upt_add_eq_append) simp
  have "concat (map (\<lambda>i. map (\<lambda>j. i * m + j) [0..<m]) [0..<Suc n])
        = concat (map (\<lambda>i. map (\<lambda>j. i * m + j) [0..<m]) [0..<n])
          @ map (\<lambda>j. n * m + j) [0..<m]"
    by simp
  also have "\<dots> = [0..<n * m] @ [n * m..<n * m + m]"
    by (simp only: Suc block)
  also have "\<dots> = [0..<Suc n * m]"
    using split by (simp add: ac_simps)
  finally show ?case .
qed

lemma length_itertools_product:
  "length (itertools_product pools) = prod_list (map length pools)"
proof (induction pools)
  case Nil
  then show ?case by simp
next
  case (Cons p ps)
  then show ?case
    by (simp add: length_concat comp_def sum_list_triv)
qed

lemma set_itertools_product:
  "set (itertools_product pools) = {t. list_all2 (\<lambda>x p. x \<in> set p) t pools}"
proof (induction pools)
  case Nil
  then show ?case by auto
next
  case (Cons p ps)
  show ?case
  proof (rule set_eqI)
    fix t
    show "t \<in> set (itertools_product (p # ps))
            \<longleftrightarrow> t \<in> {t. list_all2 (\<lambda>x p. x \<in> set p) t (p # ps)}"
      using Cons by (cases t) (auto simp: list_all2_Cons2)
  qed
qed

lemma mixed_radix_enumerates:
  "list_all distinct pools \<Longrightarrow>
   map (mixed_radix pools) (itertools_product pools) = [0..<prod_list (map length pools)]"
proof (induction pools)
  case Nil
  then show ?case by simp
next
  case (Cons p ps)
  let ?P = "prod_list (map length ps)"
  from Cons have IH: "map (mixed_radix ps) (itertools_product ps) = [0..<?P]"
    and dp: "distinct p" by simp_all
  have "map (mixed_radix (p # ps)) (itertools_product (p # ps))
        = concat (map (\<lambda>x. map (\<lambda>j. ordinal_of p x * ?P + j)
                           (map (mixed_radix ps) (itertools_product ps))) p)"
    by (simp add: map_concat comp_def)
  also have "\<dots> = concat (map (\<lambda>i. map (\<lambda>j. i * ?P + j) [0..<?P]) (map (ordinal_of p) p))"
    by (simp add: IH comp_def)
  also have "\<dots> = [0..<length p * ?P]"
    by (simp only: map_ordinal_of [OF dp] concat_blocks)
  finally show ?case by simp
qed

lemma filter_zip_absent:
  "x \<notin> set v \<Longrightarrow> filter (\<lambda>kv. fst kv = x) (zip v w) = []"
  by (auto simp: filter_empty_conv dest: set_zip_leftD)

lemma filter_Series_range:
  "distinct v \<Longrightarrow> x \<in> set v \<Longrightarrow>
   filter (\<lambda>kv. fst kv = x) (zip v (map int [k..<k + length v]))
     = [(x, int (k + ordinal_of v x))]"
proof (induction v arbitrary: k)
  case Nil
  then show ?case by simp
next
  case (Cons y ys)
  have upt: "[k..<k + length (y # ys)] = k # [Suc k..<Suc k + length ys]"
    by (simp add: upt_conv_Cons del: upt_Suc)
  show ?case
  proof (cases "x = y")
    case True
    with Cons.prems have "x \<notin> set ys" by simp
    then show ?thesis
      unfolding upt using True by (simp add: filter_zip_absent)
  next
    case False
    with Cons.prems have "distinct ys" "x \<in> set ys" by simp_all
    from Cons.IH [OF this, of "Suc k"] show ?thesis
      unfolding upt using False by simp
  qed
qed

lemma series_at_Series_range:
  "distinct v \<Longrightarrow> x \<in> set v \<Longrightarrow>
   series_at (Series_range v) x = Inr (Scalar (int (ordinal_of v x)))"
  using filter_Series_range [of v x 0]
  by (simp add: series_at_def Series_range_def)

lemma map_of_zip_range:
  "x \<in> set v \<Longrightarrow>
   map_of (zip v (map int [k..<k + length v])) x = Some (int (k + ordinal_of v x))"
proof (induction v arbitrary: k)
  case Nil
  then show ?case by simp
next
  case (Cons y ys)
  have upt: "[k..<k + length (y # ys)] = k # [Suc k..<Suc k + length ys]"
    by (simp add: upt_conv_Cons del: upt_Suc)
  show ?case
  proof (cases "x = y")
    case True
    then show ?thesis unfolding upt by simp
  next
    case False
    with Cons.prems have "x \<in> set ys" by simp
    from Cons.IH [OF this, of "Suc k"] show ?thesis
      unfolding upt using False by simp
  qed
qed

lemma map_of_Series_range:
  "x \<in> set v \<Longrightarrow> map_of (Series_range v) x = Some (int (ordinal_of v x))"
  using map_of_zip_range [of x v 0] by (simp add: Series_range_def)

lemma distinct_index_Series_range: "distinct (map fst (Series_range v)) = distinct v"
  by (simp add: Series_range_def)

lemma series_max_Series_range:
  assumes "v \<noteq> []"
  shows "series_max (Series_range v) = I64 (int (length v) - 1)"
proof -
  from assms obtain n where n: "length v = Suc n"
    by (cases v) auto
  have vals: "map snd (Series_range v) = 0 # map int [Suc 0..<Suc n]"
    by (simp add: Series_range_def n upt_conv_Cons del: upt_Suc)
  have "fold max (map int [Suc 0..<Suc n]) 0 = Max (set (0 # map int [Suc 0..<Suc n]))"
    by (simp only: Max.set_eq_fold)
  also have "set (0 # map int [Suc 0..<Suc n]) = int ` {0..<Suc n}"
    by (auto simp: image_iff Bex_def)
  also have "Max (int ` {0..<Suc n}) = int n"
    by (intro Max_eqI) auto
  finally show ?thesis
    by (simp add: series_max_def vals n)
qed

text \<open>
  64-bit arithmetic is arithmetic modulo \<open>2^64\<close>: the wrapped result of a computation
  on wrapped operands is the wrapped result of the same computation on the integers.
\<close>

lemma wrap64_mod: "wrap64 x mod 2 ^ 64 = x mod 2 ^ 64"
proof -
  have "wrap64 x mod 2 ^ 64 = ((x + 2 ^ 63) mod 2 ^ 64 - 2 ^ 63) mod 2 ^ 64"
    by (simp only: wrap64_def)
  also have "\<dots> = (x + 2 ^ 63 - 2 ^ 63) mod 2 ^ 64"
    by (rule mod_diff_left_eq)
  finally show ?thesis by simp
qed

lemma wrap64_cong: "a mod 2 ^ 64 = b mod 2 ^ 64 \<Longrightarrow> wrap64 a = wrap64 b"
proof -
  assume "a mod 2 ^ 64 = b mod 2 ^ 64"
  then have "(a + 2 ^ 63) mod 2 ^ 64 = (b + 2 ^ 63) mod 2 ^ 64"
    by (rule mod_add_cong) simp
  then show ?thesis by (simp only: wrap64_def)
qed

lemma wrap64_mult: "wrap64 (wrap64 a * wrap64 b) = wrap64 (a * b)"
proof (rule wrap64_cong)
  have "(wrap64 a * wrap64 b) mod 2 ^ 64
        = ((wrap64 a mod 2 ^ 64) * (wrap64 b mod 2 ^ 64)) mod 2 ^ 64"
    by (simp only: mod_mult_eq)
  also have "\<dots> = ((a mod 2 ^ 64) * (b mod 2 ^ 64)) mod 2 ^ 64"
    by (simp only: wrap64_mod)
  also have "\<dots> = (a * b) mod 2 ^ 64"
    by (simp only: mod_mult_eq)
  finally show "(wrap64 a * wrap64 b) mod 2 ^ 64 = (a * b) mod 2 ^ 64" .
qed

lemma wrap64_add_left: "wrap64 (wrap64 a + b) = wrap64 (a + b)"
proof (rule wrap64_cong)
  have "(wrap64 a + b) mod 2 ^ 64 = (wrap64 a mod 2 ^ 64 + b) mod 2 ^ 64"
    by (simp only: mod_add_left_eq)
  also have "\<dots> = (a + b) mod 2 ^ 64"
    by (simp only: wrap64_mod mod_add_left_eq)
  finally show "(wrap64 a + b) mod 2 ^ 64 = (a + b) mod 2 ^ 64" .
qed

lemma wrap64_step: "wrap64 (wrap64 (wrap64 u * wrap64 c) + d) = wrap64 (u * c + d)"
  by (simp only: wrap64_mult wrap64_add_left)

lemma wrap64_id: "- (2 ^ 63) \<le> x \<Longrightarrow> x < 2 ^ 63 \<Longrightarrow> wrap64 x = x"
  by (simp add: wrap64_def)

lemma wrap64_zero: "wrap64 0 = 0"
  by (simp add: wrap64_def)

lemma num_arith:
  "num_mul (I64 x) (I64 y) = I64 (wrap64 (x * y))"
  "num_add (I64 x) (I64 y) = I64 (wrap64 (x + y))"
  by (simp_all add: num_mul_def num_add_def)

lemma cardinality_Series_range:
  "v \<noteq> [] \<Longrightarrow> num_add (series_max (Series_range v)) (I64 1) = I64 (wrap64 (int (length v)))"
  by (simp add: series_max_Series_range num_arith)

lemma loop_scalar_step:
  assumes "map_of (df_columns frame) name = None" and "map_of sa name = Some x"
    and "distinct p" and "x \<in> set p"
  shows "get_unique_ids_loop ((name, Series_range p) # rest) frame sa [I64 (wrap64 u)]
         = get_unique_ids_loop rest frame sa
             [I64 (wrap64 (u * int (length p) + int (ordinal_of p x)))]"
proof -
  from assms(4) have "p \<noteq> []" by auto
  then show ?thesis
    using assms
    by (simp add: cardinality_Series_range series_at_Series_range array_mul_def
        array_add_scalar_def num_arith wrap64_step)
qed

lemma loop_column_step:
  assumes "map_of (df_columns frame) name = Some [x]" and "distinct p" and "x \<in> set p"
  shows "get_unique_ids_loop ((name, Series_range p) # rest) frame sa [I64 (wrap64 u)]
         = get_unique_ids_loop rest frame sa
             [I64 (wrap64 (u * int (length p) + int (ordinal_of p x)))]"
proof -
  from assms(3) have "p \<noteq> []" by auto
  then show ?thesis
    using assms
    by (simp add: cardinality_Series_range series_map_def distinct_index_Series_range
        map_of_Series_range array_mul_def array_add_def as_dtype_def num_arith wrap64_step)
qed

lemma loop_segments:
  assumes "list_all2 (\<lambda>x kp. x \<in> set (snd kp) \<and> distinct (snd kp)
             \<and> map_of (df_columns frame) (fst kp) = None \<and> map_of sa (fst kp) = Some x) t seg"
  shows "get_unique_ids_loop (map (\<lambda>(k, p). (k, Series_range p)) seg @ rest) frame sa
           [I64 (wrap64 u)]
         = get_unique_ids_loop rest frame sa
             [I64 (wrap64 (u * int (prod_list (map length (map snd seg)))
                           + int (mixed_radix (map snd seg) t)))]"
  using assms
proof (induction t seg arbitrary: u rule: list_all2_induct)
  case Nil
  then show ?case by simp
next
  case (Cons x t kp seg)
  obtain k p where kp: "kp = (k, p)" by (cases kp)
  from Cons.hyps(1) have step:
    "get_unique_ids_loop ((k, Series_range p) # (map (\<lambda>(k, p). (k, Series_range p)) seg @ rest))
        frame sa [I64 (wrap64 u)]
     = get_unique_ids_loop (map (\<lambda>(k, p). (k, Series_range p)) seg @ rest) frame sa
         [I64 (wrap64 (u * int (length p) + int (ordinal_of p x)))]"
    by (intro loop_scalar_step) (simp_all add: kp)
  show ?case
    by (simp add: kp step Cons.IH algebra_simps del: get_unique_ids_loop.simps)
qed

text \<open>
  Claim C3. With segmentation \<open>{tod: [AM, MD]}\<close> and taps \<open>[10, 20]\<close> the fully
  populated shape is \<open>(8, num_sets)\<close>, the uid of \<open>tod = AM\<close> with the row
  \<open>btap = 10, atap = 10\<close> is 0, and the uid of \<open>tod = MD\<close> with the row
  \<open>btap = 20, atap = 20\<close> is 7.
\<close>

theorem scenario_shape_and_uids:
  "fully_populated_shape
     (TapTapUidCalculator_init [10, 20] [(''tod'', [StrV ''AM'', StrV ''MD''])] names)
     = (8, length names)
   \<and> get_unique_ids
       (TapTapUidCalculator_init [10, 20] [(''tod'', [StrV ''AM'', StrV ''MD''])] names)
       (od_row 10 10) [(''tod'', StrV ''AM'')] = Returns [I64 0]
   \<and> get_unique_ids
       (TapTapUidCalculator_init [10, 20] [(''tod'', [StrV ''AM'', StrV ''MD''])] names)
       (od_row 20 20) [(''tod'', StrV ''MD'')] = Returns [I64 7]"
  by (simp add: fully_populated_shape_def get_unique_ids_def TapTapUidCalculator_init_def
      od_row_def Series_range_def series_max_def series_at_def series_map_def
      array_add_def array_add_scalar_def array_mul_def as_dtype_def num_arith wrap64_def
      upt_rec Let_def)

section \<open>The uid computation on a well-formed configuration\<close>

lemma ordinalizers_well_formed:
  assumes "well_formed_segmentation seg"
  shows "ordinalizers (TapTapUidCalculator_init taps seg names)
         = map (\<lambda>(k, p). (k, Series_range p)) seg
           @ [(''btap'', Series_range (map IntV taps)), (''atap'', Series_range (map IntV taps))]"
proof -
  let ?segs = "map (\<lambda>(k, p). (k, Series_range p)) seg"
  have keys: "map fst ?segs = map fst seg"
    by (simp add: comp_def case_prod_unfold)
  from assms have "distinct (map fst ([] :: (string \<times> series) list) @ map fst seg)"
    by (simp add: well_formed_def well_formed_segmentation_def)
  from foldl_dict_set_fresh [OF this, of Series_range]
  have fold: "foldl (\<lambda>d (k, v). dict_set d k (Series_range v)) [] seg = ?segs"
    by simp
  from assms have b: "''btap'' \<notin> set (map fst ?segs)"
    unfolding keys by (simp add: well_formed_def well_formed_segmentation_def)
  from assms have a: "''atap'' \<notin> set (map fst (?segs @ [(''btap'', Series_range (map IntV taps))]))"
    unfolding map_append keys by (simp add: well_formed_def well_formed_segmentation_def)
  show ?thesis
    by (simp add: TapTapUidCalculator_init_def Let_def fold dict_set_fresh [OF b]
        dict_set_fresh [OF a] del: dict_set.simps)
qed

lemma segment_facts:
  assumes wf: "well_formed_segmentation seg"
    and t: "t \<in> set (itertools_product (map snd seg))"
  shows "list_all2 (\<lambda>x kp. x \<in> set (snd kp) \<and> distinct (snd kp)
           \<and> map_of [(''btap'', [IntV b]), (''atap'', [IntV a])] (fst kp) = None
           \<and> map_of (zip (map fst seg) t) (fst kp) = Some x) t seg"
proof -
  from t have all2: "list_all2 (\<lambda>x p. x \<in> set p) t (map snd seg)"
    by (simp add: set_itertools_product)
  then have len: "length t = length seg"
    by (auto dest: list_all2_lengthD)
  show ?thesis
    unfolding list_all2_conv_all_nth
  proof (intro conjI allI impI)
    show "length t = length seg" by (rule len)
  next
    fix i assume i: "i < length t"
    with len have iseg: "i < length seg" by simp
    from all2 i show "t ! i \<in> set (snd (seg ! i))"
      using iseg by (auto simp: list_all2_conv_all_nth)
    from wf iseg show "distinct (snd (seg ! i))"
      by (auto simp: well_formed_def well_formed_segmentation_def list_all_length)
    from iseg have "fst (seg ! i) \<in> set (map fst seg)"
      by (metis length_map nth_map nth_mem)
    with wf have "fst (seg ! i) \<noteq> ''btap''" "fst (seg ! i) \<noteq> ''atap''"
      unfolding well_formed_def well_formed_segmentation_def by metis+
    then show "map_of [(''btap'', [IntV b]), (''atap'', [IntV a])] (fst (seg ! i)) = None"
      by simp
    from wf have "distinct (map fst seg)" by (simp add: well_formed_def well_formed_segmentation_def)
    with len iseg have "map_of (zip (map fst seg) t) (map fst seg ! i) = Some (t ! i)"
      by (intro map_of_zip_nth) simp_all
    with iseg show "map_of (zip (map fst seg) t) (fst (seg ! i)) = Some (t ! i)"
      by simp
  qed
qed

lemma scalar_attributes_of_tuple:
  assumes "well_formed_segmentation seg" and "t \<in> set (itertools_product (map snd seg))"
  shows "dict_comprehension (zip (map fst seg) t) = zip (map fst seg) t"
proof -
  from assms(2) have "length t = length seg"
    by (auto simp: set_itertools_product dest: list_all2_lengthD)
  then have "map fst (zip (map fst seg) t) = map fst seg"
    by simp
  with assms(1) show ?thesis
    by (intro dict_comprehension_distinct) (simp add: well_formed_def well_formed_segmentation_def)
qed

lemma uid_of_combination_value:
  assumes wf: "well_formed taps seg"
    and t: "t \<in> set (itertools_product (map snd seg))"
    and b: "b \<in> set taps" and a: "a \<in> set taps"
  shows "uid_of_combination (TapTapUidCalculator_init taps seg names) (t, b, a)
         = Returns [I64 (wrap64 (int ((mixed_radix (map snd seg) t * length taps
                             + ordinal_of (map IntV taps) (IntV b)) * length taps
                           + ordinal_of (map IntV taps) (IntV a))))]"
proof -
  from wf have wfs: "well_formed_segmentation seg"
    by (simp add: well_formed_def)
  let ?T = "map IntV taps"
  let ?sa = "zip (map fst seg) t"
  let ?frame = "od_row b a"
  have cols: "df_columns ?frame = [(''btap'', [IntV b]), (''atap'', [IntV a])]"
    by (simp add: od_row_def)
  from wf have dT: "distinct ?T"
    by (simp add: well_formed_def well_formed_segmentation_def distinct_map inj_on_def)
  from b a have mem: "IntV b \<in> set ?T" "IntV a \<in> set ?T" by simp_all
  have seg_part:
    "get_unique_ids_loop (map (\<lambda>(k, p). (k, Series_range p)) seg
        @ [(''btap'', Series_range ?T), (''atap'', Series_range ?T)]) ?frame ?sa [I64 (wrap64 0)]
     = get_unique_ids_loop [(''btap'', Series_range ?T), (''atap'', Series_range ?T)] ?frame ?sa
         [I64 (wrap64 (0 * int (prod_list (map length (map snd seg)))
                + int (mixed_radix (map snd seg) t)))]"
    by (rule loop_segments) (simp only: cols segment_facts [OF wfs t])
  have btap_part:
    "get_unique_ids_loop [(''btap'', Series_range ?T), (''atap'', Series_range ?T)] ?frame ?sa
         [I64 (wrap64 u)]
     = get_unique_ids_loop [(''atap'', Series_range ?T)] ?frame ?sa
         [I64 (wrap64 (u * int (length ?T) + int (ordinal_of ?T (IntV b))))]" for u
    by (rule loop_column_step [OF _ dT mem(1)]) (simp add: cols)
  have atap_part:
    "get_unique_ids_loop [(''atap'', Series_range ?T)] ?frame ?sa [I64 (wrap64 u)]
     = get_unique_ids_loop [] ?frame ?sa
         [I64 (wrap64 (u * int (length ?T) + int (ordinal_of ?T (IntV a))))]" for u
    by (rule loop_column_step [OF _ dT mem(2)]) (simp add: cols)
  have len: "df_len ?frame = 1" by (simp add: od_row_def)
  have start: "replicate (df_len ?frame) (I64 0) = [I64 (wrap64 0)]"
    by (simp add: len wrap64_zero)
  show ?thesis
    unfolding uid_of_combination_def get_unique_ids_def ordinalizers_well_formed [OF wfs]
    by (simp add: TapTapUidCalculator_init_def Let_def scalar_attributes_of_tuple [OF wfs t]
        start seg_part btap_part atap_part del: get_unique_ids_loop.simps(2))
qed

lemma concat_blocks_offset:
  "concat (map (\<lambda>j. map (\<lambda>k. (i * n + j) * m + k) [0..<m]) [0..<n])
   = map (\<lambda>q. i * (n * m) + q) [0..<n * m]"
proof -
  have "concat (map (\<lambda>j. map (\<lambda>k. (i * n + j) * m + k) [0..<m]) [0..<n])
        = map (\<lambda>q. i * (n * m) + q)
            (concat (map (\<lambda>j. map (\<lambda>k. j * m + k) [0..<m]) [0..<n]))"
    by (simp add: map_concat comp_def algebra_simps)
  then show ?thesis
    by (simp only: concat_blocks)
qed

lemma tap_ordinals:
  "distinct taps \<Longrightarrow>
   map (\<lambda>b. ordinal_of (map IntV taps) (IntV b)) taps = [0..<length taps]"
proof -
  assume "distinct taps"
  then have "distinct (map IntV taps)"
    by (simp add: distinct_map inj_on_def)
  from map_ordinal_of [OF this] show ?thesis
    by (simp add: comp_def)
qed

lemma calculator_fields:
  "tap_ids (TapTapUidCalculator_init taps seg names) = taps"
  "segmentation (TapTapUidCalculator_init taps seg names) = seg"
  "attribute_combination_tuples (TapTapUidCalculator_init taps seg names)
     = itertools_product (map snd seg)"
  "set_names (TapTapUidCalculator_init taps seg names) = names"
  by (simp_all add: TapTapUidCalculator_init_def Let_def)

lemma set_all_combinations:
  "set (all_combinations c)
   = set (attribute_combination_tuples c) \<times> set (tap_ids c) \<times> set (tap_ids c)"
  by (auto simp: all_combinations_def)

lemma uids_wrapped:
  assumes wf: "well_formed taps seg"
  shows "map (uid_of_combination (TapTapUidCalculator_init taps seg names))
           (all_combinations (TapTapUidCalculator_init taps seg names))
         = map (\<lambda>u. Returns [I64 (wrap64 u)])
             (fully_populated_uids (TapTapUidCalculator_init taps seg names))"
proof -
  let ?c = "TapTapUidCalculator_init taps seg names"
  let ?pools = "map snd seg"
  let ?n = "length taps"
  let ?C = "prod_list (map length ?pools)"
  let ?ord = "\<lambda>b. ordinal_of (map IntV taps) (IntV b)"
  let ?h = "\<lambda>x. case x of (t, b, a) \<Rightarrow> (mixed_radix ?pools t * ?n + ?ord b) * ?n + ?ord a"
  from wf have dt: "distinct taps" and dp: "list_all distinct ?pools"
    by (simp_all add: well_formed_def well_formed_segmentation_def list_all_iff)
  have "map (uid_of_combination ?c) (all_combinations ?c)
        = map (\<lambda>x. Returns [I64 (wrap64 (int (?h x)))]) (all_combinations ?c)"
  proof (rule map_cong [OF refl])
    fix x assume "x \<in> set (all_combinations ?c)"
    then obtain t b a where x: "x = (t, b, a)"
      and "t \<in> set (itertools_product ?pools)" "b \<in> set taps" "a \<in> set taps"
      by (auto simp: set_all_combinations calculator_fields)
    then show "uid_of_combination ?c x = Returns [I64 (wrap64 (int (?h x)))]"
      using uid_of_combination_value [OF wf, of t b a names] by simp
  qed
  also have "\<dots> = map (\<lambda>u. Returns [I64 (wrap64 (int u))]) (map ?h (all_combinations ?c))"
    by simp
  also have "map ?h (all_combinations ?c)
        = concat (map (\<lambda>i. concat (map (\<lambda>j. map (\<lambda>k. (i * ?n + j) * ?n + k)
                     (map ?ord taps)) (map ?ord taps)))
            (map (mixed_radix ?pools) (itertools_product ?pools)))"
    by (simp add: all_combinations_def calculator_fields map_concat comp_def)
  also have "\<dots> = concat (map (\<lambda>i. map (\<lambda>q. i * (?n * ?n) + q) [0..<?n * ?n]) [0..<?C])"
    by (simp only: tap_ordinals [OF dt] mixed_radix_enumerates [OF dp] concat_blocks_offset)
  also have "\<dots> = [0..<?C * (?n * ?n)]"
    by (rule concat_blocks)
  also have "map (\<lambda>u. Returns [I64 (wrap64 (int u))]) [0..<?C * (?n * ?n)]
             = map (\<lambda>u. Returns [I64 (wrap64 u)]) (fully_populated_uids ?c)"
    by (simp add: fully_populated_uids_def calculator_fields length_itertools_product
        Let_def mult.assoc)
  finally show ?thesis .
qed

lemma uids_in_canonical_order:
  assumes wf: "well_formed taps seg"
    and fits: "fst (fully_populated_shape (TapTapUidCalculator_init taps seg names)) \<le> 2 ^ 63"
  shows "map (uid_of_combination (TapTapUidCalculator_init taps seg names))
           (all_combinations (TapTapUidCalculator_init taps seg names))
         = map (\<lambda>u. Returns [I64 u])
             (fully_populated_uids (TapTapUidCalculator_init taps seg names))"
proof -
  let ?c = "TapTapUidCalculator_init taps seg names"
  have "map (\<lambda>u. Returns [I64 (wrap64 u)]) (fully_populated_uids ?c)
        = map (\<lambda>u. Returns [I64 u]) (fully_populated_uids ?c)"
  proof (rule map_cong [OF refl])
    fix u assume "u \<in> set (fully_populated_uids ?c)"
    moreover have "fully_populated_uids ?c = map int [0..<fst (fully_populated_shape ?c)]"
      by (simp add: fully_populated_uids_def fully_populated_shape_def Let_def)
    ultimately have "0 \<le> u" "u < int (fst (fully_populated_shape ?c))"
      by auto
    moreover from fits have "int (fst (fully_populated_shape ?c)) \<le> 2 ^ 63"
      by (metis of_nat_le_iff of_nat_numeral of_nat_power)
    ultimately have "wrap64 u = u"
      by (intro wrap64_id) simp_all
    then show "Returns [I64 (wrap64 u)] = Returns [I64 u]"
      by simp
  qed
  with uids_wrapped [OF wf, of names] show ?thesis
    by simp
qed

lemma colliding_uids:
  "uid_of_combination colliding_calculator ([StrV ''x''], 10, 10) = Returns [I64 0]"
  "uid_of_combination colliding_calculator ([StrV ''y''], 10, 10) = Returns [I64 0]"
  by (simp_all add: uid_of_combination_def colliding_calculator_def get_unique_ids_def
      TapTapUidCalculator_init_def od_row_def Series_range_def series_max_def series_map_def
      dict_comprehension_def array_add_def array_mul_def as_dtype_def num_arith wrap64_def
      upt_rec Let_def)

text \<open>
  Past \<open>2^63\<close> rows the 64-bit arithmetic wraps: the uid of the last combination of
  the configuration with \<open>2^63 + 2^43 + 2^21\<close> rows is negative.
\<close>

lemma overflowing_rows:
  "fst (fully_populated_shape overflowing_calculator) = 9223380832949895168"
  by (simp add: overflowing_calculator_def fully_populated_shape_def calculator_fields
      length_itertools_product Let_def del: itertools_product.simps)

lemma overflowing_uid:
  "Returns [I64 (- 9223363240759656449)]
     \<in> uid_of_combination overflowing_calculator ` set (all_combinations overflowing_calculator)"
proof -
  let ?taps = "map int [0..<2097153]"
  let ?seg = "[(''segment'', map IntV (map int [0..<2097152]))]"
  let ?c = "TapTapUidCalculator_init ?taps ?seg [''s'']"
  have wf: "well_formed ?taps ?seg"
    by (simp add: well_formed_def well_formed_segmentation_def distinct_map inj_on_def)
  have last: "9223380832949895167 \<in> set (fully_populated_uids ?c)"
  proof -
    have "fully_populated_uids ?c = map int [0..<9223380832949895168]"
      by (simp add: fully_populated_uids_def calculator_fields length_itertools_product
          Let_def del: itertools_product.simps)
    moreover have "(9223380832949895167::int) = int 9223380832949895167"
      by simp
    ultimately show ?thesis
      by (simp only: set_map set_upt image_iff) (rule bexI [of _ 9223380832949895167], simp_all)
  qed
  have "uid_of_combination ?c ` set (all_combinations ?c)
        = set (map (uid_of_combination ?c) (all_combinations ?c))"
    by simp
  also have "\<dots> = (\<lambda>u. Returns [I64 (wrap64 u)]) ` set (fully_populated_uids ?c)"
    by (simp only: uids_wrapped [OF wf] set_map)
  finally have "Returns [I64 (wrap64 9223380832949895167)]
                  \<in> uid_of_combination ?c ` set (all_combinations ?c)"
    using last by blast
  then show ?thesis
    by (simp add: overflowing_calculator_def wrap64_def)
qed

text \<open>
  Claim C1 says that, for every segmentation configuration and tap set, the uid
  computation is injective on the full Cartesian product and has the range of the fully
  populated uids as its image. A segmentation with an attribute named \<open>btap\<close> is a
  counterexample: the calculator replaces that attribute's ordinalizer by the one of
  the taps, the attribute's value no longer enters the uid, and two elements of the
  product that differ in it get the same uid. A configuration with more than \<open>2^63\<close>
  rows is another: a uid below zero is in the image.
\<close>

theorem get_unique_ids_counterexample:
  "\<not> inj_on (uid_of_combination colliding_calculator)
       (set (all_combinations colliding_calculator))
   \<and> Returns [I64 (- 9223363240759656449)]
       \<in> uid_of_combination overflowing_calculator
           ` set (all_combinations overflowing_calculator)"
proof
  show "\<not> inj_on (uid_of_combination colliding_calculator)
       (set (all_combinations colliding_calculator))"
  proof
    assume inj: "inj_on (uid_of_combination colliding_calculator)
                   (set (all_combinations colliding_calculator))"
    have mem: "([StrV ''x''], 10, 10) \<in> set (all_combinations colliding_calculator)"
              "([StrV ''y''], 10, 10) \<in> set (all_combinations colliding_calculator)"
      by (simp_all add: set_all_combinations colliding_calculator_def calculator_fields)
    from inj_onD [OF inj _ mem] colliding_uids show False
      by simp
  qed
  show "Returns [I64 (- 9223363240759656449)]
       \<in> uid_of_combination overflowing_calculator
           ` set (all_combinations overflowing_calculator)"
    by (rule overflowing_uid)
qed

text \<open>
  Claim C1, amended. For every well-formed configuration (attribute names that are
  distinct, as the keys of a dict are, and not \<open>btap\<close> or \<open>atap\<close>, no repeated value of
  an attribute, no repeated tap id) with at most \<open>2^63\<close> fully populated rows, so that every uid is a 64-bit integer, the uid
  computation is injective on the full Cartesian product of attribute values and tap
  pairs, and its image is the set of the fully populated uids, which is the integer
  range from 0 up to, and without, the number of fully populated rows.
\<close>

theorem get_unique_ids_bijective:
  assumes wf: "well_formed taps seg"
    and fits: "fst (fully_populated_shape (TapTapUidCalculator_init taps seg names)) \<le> 2 ^ 63"
  shows "inj_on (uid_of_combination (TapTapUidCalculator_init taps seg names))
           (set (all_combinations (TapTapUidCalculator_init taps seg names)))
    \<and> uid_of_combination (TapTapUidCalculator_init taps seg names)
        ` set (all_combinations (TapTapUidCalculator_init taps seg names))
      = (\<lambda>u. Returns [I64 u])
        ` set (fully_populated_uids (TapTapUidCalculator_init taps seg names))
    \<and> set (fully_populated_uids (TapTapUidCalculator_init taps seg names))
      = {0..<int (fst (fully_populated_shape (TapTapUidCalculator_init taps seg names)))}"
proof -
  let ?c = "TapTapUidCalculator_init taps seg names"
  let ?G = "\<lambda>u::int. (Returns [I64 u] :: number list outcome)"
  note order = uids_in_canonical_order [OF wf fits]
  have "distinct (fully_populated_uids ?c)"
    by (simp add: fully_populated_uids_def Let_def distinct_map inj_on_def)
  then have "distinct (map ?G (fully_populated_uids ?c))"
    by (simp add: distinct_map inj_on_def)
  then have "distinct (map (uid_of_combination ?c) (all_combinations ?c))"
    by (simp only: order)
  then have inj: "inj_on (uid_of_combination ?c) (set (all_combinations ?c))"
    by (simp add: distinct_map)
  have "uid_of_combination ?c ` set (all_combinations ?c)
        = set (map (uid_of_combination ?c) (all_combinations ?c))"
    by simp
  also have "\<dots> = ?G ` set (fully_populated_uids ?c)"
    by (simp only: order set_map)
  finally have img: "uid_of_combination ?c ` set (all_combinations ?c)
        = ?G ` set (fully_populated_uids ?c)" .
  have range: "set (fully_populated_uids ?c) = {0..<int (fst (fully_populated_shape ?c))}"
    by (simp add: fully_populated_uids_def fully_populated_shape_def Let_def
        image_int_atLeastLessThan)
  from inj img range show ?thesis by blast
qed

theorem get_unique_ids_bijective_witness:
  "well_formed [10, 20] [(''tod'', [StrV ''AM'', StrV ''MD''])]
   \<and> fst (fully_populated_shape (scenario_calculator [''s''])) \<le> 2 ^ 63
   \<and> inj_on (uid_of_combination (scenario_calculator [''s'']))
        (set (all_combinations (scenario_calculator [''s''])))
   \<and> uid_of_combination (scenario_calculator [''s''])
        ` set (all_combinations (scenario_calculator [''s'']))
      = (\<lambda>u. Returns [I64 u]) ` set (fully_populated_uids (scenario_calculator [''s'']))
   \<and> set (fully_populated_uids (scenario_calculator [''s''])) = {0..<8}"
proof -
  have wf: "well_formed [10, 20] [(''tod'', [StrV ''AM'', StrV ''MD''])]"
    by (simp add: well_formed_def well_formed_segmentation_def)
  have fits: "fst (fully_populated_shape
      (TapTapUidCalculator_init [10, 20] [(''tod'', [StrV ''AM'', StrV ''MD''])] [''s'']))
      \<le> 2 ^ 63"
    using scenario_rows [of "[''s'']"] by (simp add: scenario_calculator_def)
  from get_unique_ids_bijective [OF wf fits] wf fits show ?thesis
    by (simp add: scenario_calculator_def [symmetric] scenario_rows)
qed

section \<open>Enumerating the segment combinations\<close>

lemma skim_skip:
  "map_of sa name = None \<Longrightarrow>
   get_skim_offset_loop ((name, s) # rest) sa offset = get_skim_offset_loop rest sa offset"
  by simp

lemma skim_scalar_step:
  assumes "map_of sa name = Some x" and "distinct p" and "x \<in> set p"
  shows "get_skim_offset_loop ((name, Series_range p) # rest) sa (I64 (wrap64 u))
         = get_skim_offset_loop rest sa
             (I64 (wrap64 (u * int (length p) + int (ordinal_of p x))))"
proof -
  from assms(3) have "p \<noteq> []" by auto
  then show ?thesis
    using assms
    by (simp add: cardinality_Series_range series_at_Series_range num_arith wrap64_step)
qed

lemma skim_segments:
  assumes "list_all2 (\<lambda>x kp. x \<in> set (snd kp) \<and> distinct (snd kp)
             \<and> map_of sa (fst kp) = Some x) t seg"
  shows "get_skim_offset_loop (map (\<lambda>(k, p). (k, Series_range p)) seg @ rest) sa
           (I64 (wrap64 u))
         = get_skim_offset_loop rest sa
             (I64 (wrap64 (u * int (prod_list (map length (map snd seg)))
                           + int (mixed_radix (map snd seg) t))))"
  using assms
proof (induction t seg arbitrary: u rule: list_all2_induct)
  case Nil
  then show ?case by simp
next
  case (Cons x t kp seg)
  obtain k p where kp: "kp = (k, p)" by (cases kp)
  from Cons.hyps(1) have step:
    "get_skim_offset_loop ((k, Series_range p) # (map (\<lambda>(k, p). (k, Series_range p)) seg @ rest))
        sa (I64 (wrap64 u))
     = get_skim_offset_loop (map (\<lambda>(k, p). (k, Series_range p)) seg @ rest) sa
         (I64 (wrap64 (u * int (length p) + int (ordinal_of p x))))"
    by (intro skim_scalar_step) (simp_all add: kp)
  show ?case
    by (simp add: kp step Cons.IH algebra_simps del: get_skim_offset_loop.simps)
qed

lemma get_skim_offset_value:
  assumes wf: "well_formed_segmentation seg"
    and t: "t \<in> set (itertools_product (map snd seg))"
  shows "get_skim_offset (TapTapUidCalculator_init taps seg names)
           (dict_comprehension (zip (map fst seg) t))
         = Returns (I64 (wrap64 (int (mixed_radix (map snd seg) t))))"
proof -
  let ?sa = "zip (map fst seg) t"
  let ?T = "Series_range (map IntV taps)"
  from segment_facts [OF wf t, of 0 0]
  have facts: "list_all2 (\<lambda>x kp. x \<in> set (snd kp) \<and> distinct (snd kp)
                 \<and> map_of ?sa (fst kp) = Some x) t seg"
    by (rule list_all2_mono) simp
  from wf have "''btap'' \<notin> fst ` set ?sa" "''atap'' \<notin> fst ` set ?sa"
    by (auto simp: well_formed_def well_formed_segmentation_def dest!: set_zip_leftD)
  then have none: "map_of ?sa ''btap'' = None" "map_of ?sa ''atap'' = None"
    by (simp_all add: map_of_eq_None_iff)
  have "get_skim_offset_loop (map (\<lambda>(k, p). (k, Series_range p)) seg
            @ [(''btap'', ?T), (''atap'', ?T)]) ?sa (I64 (wrap64 0))
        = get_skim_offset_loop [(''btap'', ?T), (''atap'', ?T)] ?sa
            (I64 (wrap64 (0 * int (prod_list (map length (map snd seg)))
                   + int (mixed_radix (map snd seg) t))))"
    by (rule skim_segments [OF facts])
  then show ?thesis
    unfolding get_skim_offset_def ordinalizers_well_formed [OF wf]
    by (simp add: scalar_attributes_of_tuple [OF wf t] skim_skip [OF none(1)]
        skim_skip [OF none(2)] wrap64_zero del: get_skim_offset_loop.simps(2))
qed

lemma skim_offsets_in_order:
  assumes wf: "well_formed_segmentation seg"
    and fits: "prod_list (map length (map snd seg)) \<le> 2 ^ 63"
  shows "map (get_skim_offset (TapTapUidCalculator_init taps seg names))
           (map (\<lambda>t. dict_comprehension (zip (map fst seg) t))
              (itertools_product (map snd seg)))
         = map (\<lambda>i. Returns (I64 (int i))) [0..<prod_list (map length (map snd seg))]"
proof -
  let ?c = "TapTapUidCalculator_init taps seg names"
  let ?C = "prod_list (map length (map snd seg))"
  from wf have dp: "list_all distinct (map snd seg)"
    by (simp add: well_formed_def well_formed_segmentation_def list_all_iff)
  have "map (get_skim_offset ?c)
          (map (\<lambda>t. dict_comprehension (zip (map fst seg) t))
             (itertools_product (map snd seg)))
        = map (\<lambda>t. Returns (I64 (wrap64 (int (mixed_radix (map snd seg) t)))))
            (itertools_product (map snd seg))"
    using get_skim_offset_value [OF wf, where taps = taps and names = names] by simp
  also have "\<dots> = map (\<lambda>i. Returns (I64 (wrap64 (int i))))
                     (map (mixed_radix (map snd seg)) (itertools_product (map snd seg)))"
    by simp
  also have "\<dots> = map (\<lambda>i. Returns (I64 (wrap64 (int i)))) [0..<?C]"
    by (simp only: mixed_radix_enumerates [OF dp])
  also have "\<dots> = map (\<lambda>i. Returns (I64 (int i))) [0..<?C]"
  proof (rule map_cong [OF refl])
    fix i assume "i \<in> set [0..<?C]"
    then have "i < ?C" by simp
    with fits have "i < 2 ^ 63" by simp
    then have "int i < 2 ^ 63"
      by (metis of_nat_less_iff of_nat_numeral of_nat_power)
    then have "wrap64 (int i) = int i"
      by (intro wrap64_id) simp_all
    then show "Returns (I64 (wrap64 (int i))) = Returns (I64 (int i))"
      by simp
  qed
  finally show ?thesis .
qed

lemma exhaust_suspended:
  "g < length (generators s) \<Longrightarrow> generators s ! g = Suspended names remaining \<Longrightarrow>
   exhaust g s
   = (map (\<lambda>t. dict_comprehension (zip names t)) remaining,
      s\<lparr> generators := (generators s)[g := Finished] \<rparr>)"
proof (induction remaining arbitrary: s)
  case Nil
  then show ?case
    by (subst exhaust.simps) (simp add: generator_next_def generator_loop_def)
next
  case (Cons t rest)
  let ?s' = "s\<lparr> generators := (generators s)[g := Suspended names rest] \<rparr>"
  from Cons.prems have next_step:
    "generator_next g s = (Some (dict_comprehension (zip names t)), ?s')"
    by (simp add: generator_next_def generator_loop_def)
  from Cons.prems have "g < length (generators ?s')" "generators ?s' ! g = Suspended names rest"
    by simp_all
  from Cons.IH [OF this] have rest_run:
    "exhaust g ?s' = (map (\<lambda>t. dict_comprehension (zip names t)) rest,
                      s\<lparr> generators := (generators s)[g := Finished] \<rparr>)"
    by simp
  show ?case
    by (subst exhaust.simps) (simp add: next_step rest_run)
qed

lemma exhaust_created:
  assumes "g < length (generators s)" and "generators s ! g = Created"
  shows "exhaust g s
    = (map (\<lambda>t. dict_comprehension (zip (map fst (segmentation (calculator s))) t))
         (attribute_combination_tuples (calculator s)),
       s\<lparr> generators := (generators s)[g := Finished] \<rparr>)"
proof (cases "attribute_combination_tuples (calculator s)")
  case Nil
  with assms show ?thesis
    by (subst exhaust.simps) (simp add: generator_next_def generator_loop_def)
next
  case (Cons t rest)
  let ?names = "map fst (segmentation (calculator s))"
  let ?s' = "s\<lparr> generators := (generators s)[g := Suspended ?names rest] \<rparr>"
  from assms Cons have next_step:
    "generator_next g s = (Some (dict_comprehension (zip ?names t)), ?s')"
    by (simp add: generator_next_def generator_loop_def)
  from assms have "g < length (generators ?s')" "generators ?s' ! g = Suspended ?names rest"
    by simp_all
  from exhaust_suspended [OF this] have rest_run:
    "exhaust g ?s' = (map (\<lambda>t. dict_comprehension (zip ?names t)) rest,
                      s\<lparr> generators := (generators s)[g := Finished] \<rparr>)"
    by simp
  show ?thesis
    by (subst exhaust.simps) (simp add: next_step rest_run Cons)
qed

lemma exhaust_new_generator:
  "exhaust (fst (each_scalar_attribute_combination s))
     (snd (each_scalar_attribute_combination s))
   = (map (\<lambda>t. dict_comprehension (zip (map fst (segmentation (calculator s))) t))
        (attribute_combination_tuples (calculator s)),
      s\<lparr> generators := generators s @ [Finished] \<rparr>)"
proof -
  let ?s1 = "s\<lparr> generators := generators s @ [Created] \<rparr>"
  have "length (generators s) < length (generators ?s1)"
       "generators ?s1 ! length (generators s) = Created"
    by simp_all
  from exhaust_created [OF this] show ?thesis
    by (simp add: each_scalar_attribute_combination_def)
qed

text \<open>
  Claim C9 says that the enumeration comes in the order used for the uid composition.
  On the segmentation with an attribute named \<open>btap\<close> it does not: the two mappings it
  yields have no segment offset (\<open>get_skim_offset\<close> looks their value up among the
  taps and raises), and with the same row both get the same uid.
\<close>

theorem each_scalar_attribute_combination_order_counterexample:
  "fst (exhaust
         (fst (each_scalar_attribute_combination
                \<lparr> calculator = colliding_calculator, generators = [] \<rparr>))
         (snd (each_scalar_attribute_combination
                \<lparr> calculator = colliding_calculator, generators = [] \<rparr>)))
     = [[(''btap'', StrV ''x'')], [(''btap'', StrV ''y'')]]
   \<and> map (get_skim_offset colliding_calculator)
         [[(''btap'', StrV ''x'')], [(''btap'', StrV ''y'')]]
     = [Raises KeyError, Raises KeyError]
   \<and> map (get_unique_ids colliding_calculator (od_row 10 10))
         [[(''btap'', StrV ''x'')], [(''btap'', StrV ''y'')]]
     = [Returns [I64 0], Returns [I64 0]]"
proof -
  have "fst (exhaust
         (fst (each_scalar_attribute_combination
                \<lparr> calculator = colliding_calculator, generators = [] \<rparr>))
         (snd (each_scalar_attribute_combination
                \<lparr> calculator = colliding_calculator, generators = [] \<rparr>)))
     = [[(''btap'', StrV ''x'')], [(''btap'', StrV ''y'')]]"
    by (simp add: exhaust_new_generator colliding_calculator_def calculator_fields
        dict_comprehension_def)
  moreover have "map (get_skim_offset colliding_calculator)
         [[(''btap'', StrV ''x'')], [(''btap'', StrV ''y'')]]
     = [Raises KeyError, Raises KeyError]"
    by (simp add: get_skim_offset_def colliding_calculator_def TapTapUidCalculator_init_def
        Series_range_def series_at_def upt_rec Let_def)
  moreover have "map (get_unique_ids colliding_calculator (od_row 10 10))
         [[(''btap'', StrV ''x'')], [(''btap'', StrV ''y'')]]
     = [Returns [I64 0], Returns [I64 0]]"
    by (simp add: colliding_calculator_def get_unique_ids_def
      TapTapUidCalculator_init_def od_row_def Series_range_def series_max_def series_map_def
      array_add_def array_mul_def as_dtype_def num_arith wrap64_def upt_rec Let_def)
  ultimately show ?thesis by blast
qed

text \<open>
  Claim C9, amended. Enumerating the segment combinations is deterministic and
  restartable: in every session, whatever generators were created before and however
  far they have run, a new call yields, when iterated to its end, one mapping for each
  tuple of the Cartesian product of the attribute values, in odometer order, and then
  finishes; it leaves the calculator and the other generators as they were; so a
  second call yields the same finite sequence. On a well-formed segmentation (attribute
  names that are distinct, as the keys of a dict are, and not \<open>btap\<close> or \<open>atap\<close>, no
  repeated value of an attribute) with at most \<open>2^63\<close> combinations this is the order of the uid composition: the mapping at
  position \<open>i\<close> has segment offset \<open>i\<close>.
\<close>

theorem each_scalar_attribute_combination_restartable:
  "exhaust (fst (each_scalar_attribute_combination
                  \<lparr> calculator = TapTapUidCalculator_init taps seg names, generators = gs \<rparr>))
     (snd (each_scalar_attribute_combination
            \<lparr> calculator = TapTapUidCalculator_init taps seg names, generators = gs \<rparr>))
   = (map (\<lambda>t. dict_comprehension (zip (map fst seg) t)) (itertools_product (map snd seg)),
      \<lparr> calculator = TapTapUidCalculator_init taps seg names,
        generators = gs @ [Finished] \<rparr>)
   \<and> fst (exhaust
        (fst (each_scalar_attribute_combination
          (snd (exhaust
             (fst (each_scalar_attribute_combination
                  \<lparr> calculator = TapTapUidCalculator_init taps seg names, generators = gs \<rparr>))
             (snd (each_scalar_attribute_combination
                  \<lparr> calculator = TapTapUidCalculator_init taps seg names, generators = gs \<rparr>))))))
        (snd (each_scalar_attribute_combination
          (snd (exhaust
             (fst (each_scalar_attribute_combination
                  \<lparr> calculator = TapTapUidCalculator_init taps seg names, generators = gs \<rparr>))
             (snd (each_scalar_attribute_combination
                  \<lparr> calculator = TapTapUidCalculator_init taps seg names, generators = gs \<rparr>)))))))
     = map (\<lambda>t. dict_comprehension (zip (map fst seg) t)) (itertools_product (map snd seg))
   \<and> (well_formed_segmentation seg \<and> prod_list (map length (map snd seg)) \<le> 2 ^ 63 \<longrightarrow>
        map (get_skim_offset (TapTapUidCalculator_init taps seg names))
          (fst (exhaust
             (fst (each_scalar_attribute_combination
                  \<lparr> calculator = TapTapUidCalculator_init taps seg names, generators = gs \<rparr>))
             (snd (each_scalar_attribute_combination
                  \<lparr> calculator = TapTapUidCalculator_init taps seg names, generators = gs \<rparr>))))
        = map (\<lambda>i. Returns (I64 (int i))) [0..<prod_list (map length (map snd seg))])"
proof -
  let ?c = "TapTapUidCalculator_init taps seg names"
  have run: "exhaust (fst (each_scalar_attribute_combination
                            \<lparr> calculator = ?c, generators = hs \<rparr>))
               (snd (each_scalar_attribute_combination \<lparr> calculator = ?c, generators = hs \<rparr>))
             = (map (\<lambda>t. dict_comprehension (zip (map fst seg) t))
                  (itertools_product (map snd seg)),
                \<lparr> calculator = ?c, generators = hs @ [Finished] \<rparr>)" for hs
    by (simp add: exhaust_new_generator calculator_fields)
  show ?thesis
    unfolding run fst_conv snd_conv
    using skim_offsets_in_order [where seg = seg and taps = taps and names = names] by simp
qed

theorem each_scalar_attribute_combination_restartable_witness:
  "well_formed_segmentation [(''tod'', [StrV ''AM'', StrV ''MD''])]
   \<and> fst (exhaust
        (fst (each_scalar_attribute_combination
               \<lparr> calculator = scenario_calculator [''s''],
                 generators = [Suspended [''tod''] [[StrV ''MD'']]] \<rparr>))
        (snd (each_scalar_attribute_combination
               \<lparr> calculator = scenario_calculator [''s''],
                 generators = [Suspended [''tod''] [[StrV ''MD'']]] \<rparr>)))
      = [[(''tod'', StrV ''AM'')], [(''tod'', StrV ''MD'')]]
   \<and> snd (exhaust
        (fst (each_scalar_attribute_combination
               \<lparr> calculator = scenario_calculator [''s''],
                 generators = [Suspended [''tod''] [[StrV ''MD'']]] \<rparr>))
        (snd (each_scalar_attribute_combination
               \<lparr> calculator = scenario_calculator [''s''],
                 generators = [Suspended [''tod''] [[StrV ''MD'']]] \<rparr>)))
      = \<lparr> calculator = scenario_calculator [''s''],
          generators = [Suspended [''tod''] [[StrV ''MD'']], Finished] \<rparr>
   \<and> map (get_skim_offset (scenario_calculator [''s'']))
        [[(''tod'', StrV ''AM'')], [(''tod'', StrV ''MD'')]]
      = [Returns (I64 0), Returns (I64 1)]"
proof -
  let ?seg = "[(''tod'', [StrV ''AM'', StrV ''MD''])]"
  let ?gs = "[Suspended [''tod''] [[StrV ''MD'']]]"
  let ?c = "TapTapUidCalculator_init [10, 20] ?seg [''s'']"
  let ?s = "\<lparr> calculator = ?c, generators = ?gs \<rparr>"
  let ?run = "exhaust (fst (each_scalar_attribute_combination ?s))
                (snd (each_scalar_attribute_combination ?s))"
  note inst = each_scalar_attribute_combination_restartable [of "[10, 20]" ?seg "[''s'']" ?gs]
  have wf: "well_formed_segmentation ?seg"
    by (simp add: well_formed_def well_formed_segmentation_def)
  have fits: "prod_list (map length (map snd ?seg)) \<le> 2 ^ 63"
    by simp
  from inst have "?run = (map (\<lambda>t. dict_comprehension (zip (map fst ?seg) t))
                           (itertools_product (map snd ?seg)),
                         \<lparr> calculator = ?c, generators = ?gs @ [Finished] \<rparr>)"
    by blast
  then have run: "?run = ([[(''tod'', StrV ''AM'')], [(''tod'', StrV ''MD'')]],
                          \<lparr> calculator = ?c, generators = ?gs @ [Finished] \<rparr>)"
    by (simp add: dict_comprehension_def)
  from inst wf fits have "map (get_skim_offset ?c) (fst ?run)
      = map (\<lambda>i. Returns (I64 (int i))) [0..<prod_list (map length (map snd ?seg))]"
    by blast
  then have offsets: "map (get_skim_offset ?c)
        [[(''tod'', StrV ''AM'')], [(''tod'', StrV ''MD'')]]
      = [Returns (I64 0), Returns (I64 1)]"
    unfolding run fst_conv by (simp add: upt_rec)
  show ?thesis
    unfolding scenario_calculator_def
    using wf run offsets by simp
qed

section \<open>Extending the table\<close>

text \<open>
  Claim C4. \<open>extend_table\<close> succeeds exactly when the new rows are not empty, the store
  is open and not fully populated, and the uid keys of the old and the new rows
  together have no duplicate; every failure is an assertion error; and on success the
  store is dirty and its table is the old one followed by the new rows, so it has grown
  by \<open>len(new_rows)\<close> rows.
\<close>

theorem extend_table_contract:
  "(fst (extend_table calc c new_rows) = Inr ()) =
     (new_rows \<noteq> [] \<and> is_open c \<and> is_fully_populated calc c = Inr False
      \<and> distinct (map fst (table_rows c @ new_rows)))
   \<and> (fst (extend_table calc c new_rows) \<noteq> Inr ()
        \<longrightarrow> fst (extend_table calc c new_rows) = Inl AssertionError)
   \<and> (fst (extend_table calc c new_rows) = Inr ()
        \<longrightarrow> is_changed (snd (extend_table calc c new_rows))
          \<and> table_rows (snd (extend_table calc c new_rows)) = table_rows c @ new_rows
          \<and> length (table_rows (snd (extend_table calc c new_rows)))
              = length (table_rows c) + length new_rows)"
  by (cases "df c")
     (auto simp: extend_table_def is_fully_populated_def table_rows_def Let_def
           split: option.splits sum.splits bool.splits if_splits)

theorem extend_table_contract_witness:
  "fst (extend_table (scenario_calculator [''s''])
          (example_store True False (Some partial_table)) [(3, [Num 1])]) = Inr ()
   \<and> is_changed (snd (extend_table (scenario_calculator [''s''])
          (example_store True False (Some partial_table)) [(3, [Num 1])]))
   \<and> length (table_rows (snd (extend_table (scenario_calculator [''s''])
          (example_store True False (Some partial_table)) [(3, [Num 1])]))) = 3
   \<and> fst (extend_table (scenario_calculator [''s''])
          (example_store True False (Some partial_table)) [(5, [Num 1])])
       = Inl AssertionError"
  using extend_table_contract [of "scenario_calculator [''s'']"
          "example_store True False (Some partial_table)" "[(3, [Num 1])]"]
        extend_table_contract [of "scenario_calculator [''s'']"
          "example_store True False (Some partial_table)" "[(5, [Num 1])]"]
  by (simp add: scenario_rows is_fully_populated_def example_store_def partial_table_def
      table_rows_def)

text \<open>
  Claim C10. A failure of \<open>extend_table\<close> on a duplicate key is not atomic: the
  assertion on the index runs after the dirty flag has been set and the rows have been
  appended, so the error leaves the store dirty and holding the duplicate rows.
\<close>

theorem extend_table_not_atomic:
  assumes "new_rows \<noteq> []" and "is_open c" and "is_fully_populated calc c = Inr False"
    and "\<not> distinct (map fst (table_rows c @ new_rows))"
  shows "extend_table calc c new_rows =
           (Inl AssertionError,
            c\<lparr> is_changed := True, df := Some (table_rows c @ new_rows) \<rparr>)"
  using assms
  by (cases "df c")
     (auto simp: extend_table_def is_fully_populated_def table_rows_def Let_def)

theorem extend_table_not_atomic_witness:
  "[(5, [NaN])] \<noteq> []
   \<and> is_open (example_store True False (Some partial_table))
   \<and> \<not> distinct (map fst (table_rows (example_store True False (Some partial_table))
                          @ [(5, [NaN])]))
   \<and> extend_table (scenario_calculator [''s''])
       (example_store True False (Some partial_table)) [(5, [NaN])]
     = (Inl AssertionError,
        example_store True True (Some [(5, [Num 1]), (2, [Num 1]), (5, [NaN])]))"
  using extend_table_not_atomic [of "[(5, [NaN])]"
          "example_store True False (Some partial_table)" "scenario_calculator [''s'']"]
  by (simp add: scenario_rows is_fully_populated_def example_store_def partial_table_def
      table_rows_def)

text \<open>
  Claim C5 says that \<open>extend_table\<close> rejects a uid outside the range of the fully
  populated uids. The code has no such check: in the scenario, whose valid uids are
  0 to 7, a row with uid 100 is accepted.
\<close>

theorem extend_table_out_of_range_counterexample:
  "fst (extend_table (scenario_calculator [''s'']) (example_store True False None)
          [(100, [Num 1])]) = Inr ()
   \<and> \<not> (0 \<le> (100::int)
        \<and> (100::int) < int (fst (fully_populated_shape (scenario_calculator [''s'']))))"
  by (simp add: scenario_rows extend_table_def is_fully_populated_def example_store_def
      table_rows_def Let_def)

text \<open>
  Claim C5, amended. \<open>extend_table\<close> does not look at the range of a uid. On an open
  store that is not fully populated, a new row whose uid lies outside
  \<open>[0, fully_populated_rows)\<close> is treated like any other: it is appended and the store
  marked dirty, and the call succeeds if and only if the uid is not yet a key of the
  table and the keys of the table have no duplicate among themselves.
\<close>

theorem extend_table_no_range_check:
  assumes "is_open c" and "is_fully_populated calc c = Inr False"
    and "\<not> (0 \<le> uid \<and> uid < int (fst (fully_populated_shape calc)))"
  shows "(fst (extend_table calc c [(uid, row)]) = Inr ())
           = (distinct (map fst (table_rows c)) \<and> uid \<notin> set (map fst (table_rows c)))
    \<and> snd (extend_table calc c [(uid, row)])
        = c\<lparr> is_changed := True, df := Some (table_rows c @ [(uid, row)]) \<rparr>"
  using assms
  by (cases "df c")
     (auto simp: extend_table_def is_fully_populated_def table_rows_def Let_def)

theorem extend_table_no_range_check_witness:
  "is_open (example_store True False (Some partial_table))
   \<and> \<not> (0 \<le> (- 1::int)
        \<and> (- 1::int) < int (fst (fully_populated_shape (scenario_calculator [''s'']))))
   \<and> extend_table (scenario_calculator [''s''])
       (example_store True False (Some partial_table)) [(- 1, [NaN])]
     = (Inr (), example_store True True (Some [(5, [Num 1]), (2, [Num 1]), (- 1, [NaN])]))
   \<and> extend_table (scenario_calculator [''s''])
       (example_store True True (Some [(5, [Num 1]), (2, [Num 1]), (5, [NaN])]))
       [(100, [NaN])]
     = (Inl AssertionError,
        example_store True True
          (Some [(5, [Num 1]), (2, [Num 1]), (5, [NaN]), (100, [NaN])]))"
  using extend_table_no_range_check [of "example_store True False (Some partial_table)"
          "scenario_calculator [''s'']" "- 1" "[NaN]"]
        extend_table_no_range_check
          [of "example_store True True (Some [(5, [Num 1]), (2, [Num 1]), (5, [NaN])])"
          "scenario_calculator [''s'']" 100 "[NaN]"]
  by (simp add: scenario_rows is_fully_populated_def example_store_def partial_table_def
      table_rows_def extend_table_def Let_def)

section \<open>Opening for a rebuild\<close>

text \<open>
  A store that is not open holds no table: the constructor creates it so, and \<open>close\<close>
  leaves it so.
\<close>

lemma TVPBCache_init_closed:
  "\<not> is_open (TVPBCache_init tag) \<and> df (TVPBCache_init tag) = None"
  by (simp add: TVPBCache_init_def)

lemma close_leaves_no_table:
  "close los calc (c, w) = (Inr (), c', w') \<Longrightarrow> \<not> is_open c' \<and> df c' = None"
  by (auto simp: close_def split: if_splits prod.splits sum.splits)

text \<open>
  Claim C6. Opening a closed store for a rebuild loads nothing: whatever files and
  shared buffers exist, the call returns with the store open and without a table, and
  it makes no access to the file system or to the buffers (the world and its access
  log are unchanged).
\<close>

theorem open_for_rebuild_loads_nothing:
  assumes "\<not> is_open c" and "df c = None"
  shows "open_cache los calc True (c, w) = (Inr (), c\<lparr> is_open := True \<rparr>, w)
    \<and> is_open (fst (snd (open_cache los calc True (c, w))))
    \<and> df (fst (snd (open_cache los calc True (c, w)))) = None
    \<and> io_log (snd (snd (open_cache los calc True (c, w)))) = io_log w"
  using assms by (simp add: open_cache_def Let_def)

theorem open_for_rebuild_loads_nothing_witness:
  "\<not> is_open (TVPBCache_init ''tap_tap'') \<and> df (TVPBCache_init ''tap_tap'') = None
   \<and> static_file stocked_world \<noteq> None \<and> dynamic_file stocked_world \<noteq> None
   \<and> data_buffers stocked_world \<noteq> None
   \<and> open_cache (example_los False False) (scenario_calculator [''s'']) True
        (TVPBCache_init ''tap_tap'', stocked_world)
      = (Inr (), example_store True False None, stocked_world)"
  using open_for_rebuild_loads_nothing [of "TVPBCache_init ''tap_tap''"
          "example_los False False" "scenario_calculator [''s'']" stocked_world]
  by (simp add: TVPBCache_init_def example_store_def stocked_world_def)

section \<open>Flushing\<close>

text \<open>
  Claim C2. Flushing a dirty, fully populated store is to write the memory-mapped
  static file; the code that does so stands in \<open>flush\<close>, but behind an unconditional
  \<open>assert False\<close> that its comment marks as a bug to be removed. In the scenario, with
  all eight rows in the table, \<open>flush\<close> raises the assertion error, no static file
  appears, and the store stays dirty.
\<close>

theorem flush_fully_populated_raises:
  "is_open (example_store True True (Some full_table))
   \<and> is_changed (example_store True True (Some full_table))
   \<and> is_fully_populated (scenario_calculator [''s''])
        (example_store True True (Some full_table)) = Inr True
   \<and> flush (example_los True False) (scenario_calculator [''s''])
        (example_store True True (Some full_table), empty_world)
      = (Inl AssertionError, example_store True True (Some full_table), empty_world)
   \<and> static_file (snd (snd (flush (example_los True False) (scenario_calculator [''s''])
        (example_store True True (Some full_table), empty_world)))) = None"
  by (simp add: flush_def is_fully_populated_def scenario_rows example_store_def
      full_table_def empty_world_def Let_def)

text \<open>
  Claim C7 says that flushing a dirty, partially populated store with the rebuild flag
  off skips the write without an error. The store that a failed \<open>extend_table\<close> leaves
  behind is open, dirty and partially populated, and its table has a duplicate key:
  there \<open>flush\<close> raises an assertion error.
\<close>

theorem flush_duplicate_keys_counterexample:
  "is_open (example_store True True (Some [(5, [Num 1]), (2, [Num 1]), (5, [NaN])]))
   \<and> is_changed (example_store True True (Some [(5, [Num 1]), (2, [Num 1]), (5, [NaN])]))
   \<and> is_fully_populated (scenario_calculator [''s''])
        (example_store True True (Some [(5, [Num 1]), (2, [Num 1]), (5, [NaN])]))
      = Inr False
   \<and> \<not> rebuild_tvpb_cache (example_los False False)
   \<and> fst (flush (example_los False False) (scenario_calculator [''s''])
        (example_store True True (Some [(5, [Num 1]), (2, [Num 1]), (5, [NaN])]),
         empty_world))
      = Inl AssertionError"
  by (simp add: flush_def is_fully_populated_def scenario_rows example_store_def
      example_los_def empty_world_def Let_def)

text \<open>An open store without a table: the first assertion of \<open>flush\<close> cannot read its index.\<close>

lemma flush_without_table:
  "is_open c \<Longrightarrow> df c = None \<Longrightarrow> flush los calc (c, w) = (Inl AttributeError, c, w)"
  by (simp add: flush_def Let_def)

text \<open>
  Claim C7, amended. On an open store that holds a table without duplicate keys:
  if the store is not dirty, \<open>flush\<close> returns and changes nothing; if it is dirty, not
  fully populated and the rebuild flag is off, \<open>flush\<close> returns without an error, the
  store stays as it is, the dynamic and the static file are untouched, and the only
  write is that of the trace file when tracing is on; if the rebuild flag is on, the
  table is written to the dynamic file and the dirty flag is cleared.
\<close>

theorem flush_cases:
  assumes "is_open c" and "df c = Some t" and "distinct (map fst t)"
  shows "(\<not> is_changed c \<longrightarrow> flush los calc (c, w) = (Inr (), c, w))
    \<and> (is_changed c \<and> is_fully_populated calc c = Inr False \<and> \<not> rebuild_tvpb_cache los \<longrightarrow>
         fst (flush los calc (c, w)) = Inr ()
         \<and> fst (snd (flush los calc (c, w))) = c
         \<and> dynamic_file (snd (snd (flush los calc (c, w)))) = dynamic_file w
         \<and> static_file (snd (snd (flush los calc (c, w)))) = static_file w
         \<and> io_log (snd (snd (flush los calc (c, w))))
             = (if trace_tvpb_cache_as_csv los
                then io_log w @ [WriteCsv (cache_path los c TRACE)] else io_log w))
    \<and> (is_changed c \<and> is_fully_populated calc c = Inr False \<and> rebuild_tvpb_cache los \<longrightarrow>
         fst (flush los calc (c, w)) = Inr ()
         \<and> fst (snd (flush los calc (c, w))) = c\<lparr> is_changed := False \<rparr>
         \<and> dynamic_file (snd (snd (flush los calc (c, w)))) = Some t
         \<and> static_file (snd (snd (flush los calc (c, w)))) = static_file w)"
  using assms
  by (auto simp: flush_def is_fully_populated_def Let_def)

theorem flush_cases_witness:
  "flush (example_los False False) (scenario_calculator [''s''])
       (example_store True False (Some partial_table), stocked_world)
     = (Inr (), example_store True False (Some partial_table), stocked_world)
   \<and> flush (example_los False False) (scenario_calculator [''s''])
       (example_store True True (Some partial_table), stocked_world)
     = (Inr (), example_store True True (Some partial_table), stocked_world)
   \<and> fst (snd (flush (example_los True False) (scenario_calculator [''s''])
       (example_store True True (Some partial_table), stocked_world)))
     = example_store True False (Some partial_table)
   \<and> dynamic_file (snd (snd (flush (example_los True False) (scenario_calculator [''s''])
       (example_store True True (Some partial_table), stocked_world))))
     = Some partial_table"
  using flush_cases [of "example_store True False (Some partial_table)" partial_table
          "example_los False False" "scenario_calculator [''s'']" stocked_world]
        flush_cases [of "example_store True True (Some partial_table)" partial_table
          "example_los False False" "scenario_calculator [''s'']" stocked_world]
        flush_cases [of "example_store True True (Some partial_table)" partial_table
          "example_los True False" "scenario_calculator [''s'']" stocked_world]
  by (simp add: flush_def Let_def is_fully_populated_def scenario_rows example_store_def
      example_los_def partial_table_def stocked_world_def)

section \<open>Allocating the data buffer\<close>

lemma allocate_private_all_nan:
  "\<not> is_open c \<Longrightarrow> allocate_data_buffer calc c False
     = Inr (NumpyArray (replicate
         (fst (fully_populated_shape calc) * snd (fully_populated_shape calc)) NaN))"
  by (simp add: allocate_data_buffer_def iprod_def Let_def)

lemma allocate_shared_all_zero:
  "\<not> is_open c \<Longrightarrow> allocate_data_buffer calc c True
     = Inr (SynchronizedArray (replicate
         (fst (fully_populated_shape calc) * snd (fully_populated_shape calc)) (Num 0)))"
  by (simp add: allocate_data_buffer_def iprod_def Let_def RAWARRAY_def DTYPE_NAME_def)

text \<open>
  Claim C8 says that the buffer is filled with NaN in the private and in the shared
  case. In the scenario with one set both buffers have \<open>8 \<times> 1\<close> cells; the private one
  is all NaN, the shared one comes back all zero.
\<close>

theorem allocate_shared_not_nan:
  "allocate_data_buffer (scenario_calculator [''s'']) (TVPBCache_init ''tap_tap'') True
     = Inr (SynchronizedArray [Num 0, Num 0, Num 0, Num 0, Num 0, Num 0, Num 0, Num 0])
   \<and> allocate_data_buffer (scenario_calculator [''s'']) (TVPBCache_init ''tap_tap'') False
     = Inr (NumpyArray [NaN, NaN, NaN, NaN, NaN, NaN, NaN, NaN])"
  by (simp add: allocate_data_buffer_def iprod_def Let_def RAWARRAY_def DTYPE_NAME_def
      scenario_rows TVPBCache_init_def numeral_eq_Suc)

end
